theory Spec2Isabelle
  imports Complex_Main "HOL-Library.AList" "HOL-Library.Sublist"
begin

section \<open>JavaScript values shared by the components\<close>

text \<open>
  An exception thrown by the router, the rate limiter or an adapter is an \<open>Error\<close> object.
  The code reads three of its properties: \<open>message\<close>, \<open>code\<close> and \<open>retryAfter\<close>.
  A property that was never assigned is \<open>undefined\<close>, modelled by \<open>None\<close>.
  A function that may throw returns \<open>js_error + 'a\<close>, with \<open>Inl\<close> for the exception.
\<close>

record js_error =
  message :: "string option"
  code :: "string option"
  retryAfter :: "int option"

text \<open>\<open>String.prototype.includes\<close>: does \<open>sub\<close> occur in \<open>s\<close> as a contiguous substring.\<close>

fun str_includes :: "string \<Rightarrow> string \<Rightarrow> bool" where
  "str_includes [] sub = (sub = [])"
| "str_includes (c # cs) sub = (prefix sub (c # cs) \<or> str_includes cs sub)"

text \<open>Decimal rendering of an integer, as a template literal prints it.\<close>

fun string_of_nat :: "nat \<Rightarrow> string" where
  "string_of_nat n =
     (if n < 10 then [char_of (48 + n)]
      else string_of_nat (n div 10) @ [char_of (48 + n mod 10)])"

definition string_of_int :: "int \<Rightarrow> string" where
  "string_of_int i = (if i < 0 then CHR ''-'' # string_of_nat (nat (- i)) else string_of_nat (nat i))"

text \<open>\<open>Math.ceil(x / 1000)\<close> for an integer number of milliseconds \<open>x\<close>.\<close>

definition ceil_seconds :: "int \<Rightarrow> int" where
  "ceil_seconds x = - ((- x) div 1000)"

text \<open>Truthiness of a value that is a string or \<open>undefined\<close>: the empty string is falsy.\<close>

definition truthy :: "string option \<Rightarrow> bool" where
  "truthy v = (case v of None \<Rightarrow> False | Some s \<Rightarrow> s \<noteq> [])"

section \<open>RateLimiter\<close>

text \<open>
  The limiter keeps two \<open>Map\<close>s from keys to window objects \<open>{count, resetTime}\<close>:
  \<open>usage\<close> (sustained, 60 s) keyed by the identifier and \<open>burstUsage\<close> (burst, 10 s) keyed
  by the identifier followed by \<open>:burst\<close>. A \<open>Map\<close> iterates in insertion order, so it is an
  association list: \<open>map_of\<close> is \<open>get\<close>, \<open>AList.update\<close> is \<open>set\<close> (an existing key keeps its
  place, a new one goes to the end). The window objects are
  mutated in place through the reference held by the map; the model writes the changed
  object back under its key. Counts and limits are natural numbers, times are integer
  milliseconds, and \<open>Date.now()\<close> is the parameter \<open>now\<close>.
\<close>

record usage_window =
  count :: nat
  resetTime :: int

record limits =
  requests_per_minute :: nat
  burst_limit :: nat

record RateLimiter =
  limits :: limits
  usage :: "(string \<times> usage_window) list"
  burstUsage :: "(string \<times> usage_window) list"

text \<open>
  The constructor's argument. The object literal sets \<open>requests_per_minute\<close> from
  \<open>per_user_requests_per_minute || 50\<close> and \<open>burst_limit\<close> from \<open>burst_limit || 10\<close>, and then
  spreads \<open>config\<close> over both, so a \<open>requests_per_minute\<close> or \<open>burst_limit\<close> property of the
  configuration wins, even when it is 0.
\<close>

record limiter_config =
  per_user_requests_per_minute :: "nat option"
  config_requests_per_minute :: "nat option"
  config_burst_limit :: "nat option"

definition RateLimiter_new :: "limiter_config \<Rightarrow> RateLimiter" where
  "RateLimiter_new config =
     \<lparr>limits =
        \<lparr>requests_per_minute =
           (case config_requests_per_minute config of
              Some n \<Rightarrow> n
            | None \<Rightarrow> (case per_user_requests_per_minute config of
                         None \<Rightarrow> 50
                       | Some n \<Rightarrow> if n = 0 then 50 else n)),
         burst_limit = (case config_burst_limit config of Some n \<Rightarrow> n | None \<Rightarrow> 10)\<rparr>,
      usage = [],
      burstUsage = []\<rparr>"

definition burst_error :: "int \<Rightarrow> js_error" where
  "burst_error resetIn =
     \<lparr>message = Some (''Burst rate limit exceeded. Try again in '' @ string_of_int resetIn @ '' seconds.''),
      code = None,
      retryAfter = None\<rparr>"

definition sustained_error :: "int \<Rightarrow> js_error" where
  "sustained_error resetIn =
     \<lparr>message = Some (''Rate limit exceeded. Try again in '' @ string_of_int resetIn @ '' seconds.''),
      code = Some ''RATE_LIMIT_EXCEEDED'',
      retryAfter = Some resetIn\<rparr>"

definition checkBurstLimit :: "RateLimiter \<Rightarrow> string \<Rightarrow> int \<Rightarrow> (js_error + unit) \<times> RateLimiter" where
  "checkBurstLimit rl identifier now =
     (let burstWindow = 10000;
          burstKey = identifier @ '':burst'';
          created = (case map_of (burstUsage rl) burstKey of
                       None \<Rightarrow> \<lparr>count = 0, resetTime = now + burstWindow\<rparr>
                     | Some d \<Rightarrow> d);
          burstData = (if now > resetTime created
                       then \<lparr>count = 0, resetTime = now + burstWindow\<rparr>
                       else created)
      in if count burstData \<ge> burst_limit (limits rl)
         then (Inl (burst_error (ceil_seconds (resetTime burstData - now))),
               rl\<lparr>burstUsage := AList.update burstKey burstData (burstUsage rl)\<rparr>)
         else (Inr (),
               rl\<lparr>burstUsage :=
                    AList.update burstKey (burstData\<lparr>count := count burstData + 1\<rparr>) (burstUsage rl)\<rparr>))"

definition checkSustainedLimit :: "RateLimiter \<Rightarrow> string \<Rightarrow> int \<Rightarrow> (js_error + unit) \<times> RateLimiter" where
  "checkSustainedLimit rl identifier now =
     (let minuteWindow = 60000;
          created = (case map_of (usage rl) identifier of
                       None \<Rightarrow> \<lparr>count = 0, resetTime = now + minuteWindow\<rparr>
                     | Some d \<Rightarrow> d);
          currentUsage = (if now > resetTime created
                          then \<lparr>count = 0, resetTime = now + minuteWindow\<rparr>
                          else created)
      in if count currentUsage \<ge> requests_per_minute (limits rl)
         then (Inl (sustained_error (ceil_seconds (resetTime currentUsage - now))),
               rl\<lparr>usage := AList.update identifier currentUsage (usage rl)\<rparr>)
         else (Inr (),
               rl\<lparr>usage :=
                    AList.update identifier (currentUsage\<lparr>count := count currentUsage + 1\<rparr>) (usage rl)\<rparr>))"

text \<open>
  \<open>checkLimit(identifier = 'anonymous')\<close>: the burst check runs first; when it throws, the
  sustained check is not reached. Either way the state already written stays written.
\<close>

definition checkLimit :: "RateLimiter \<Rightarrow> string option \<Rightarrow> int \<Rightarrow> (js_error + unit) \<times> RateLimiter" where
  "checkLimit rl identifier now =
     (let ident = (case identifier of None \<Rightarrow> ''anonymous'' | Some i \<Rightarrow> i)
      in case checkBurstLimit rl ident now of
           (Inl e, rl') \<Rightarrow> (Inl e, rl')
         | (Inr _, rl') \<Rightarrow> checkSustainedLimit rl' ident now)"

record window_report =
  report_count :: nat
  report_limit :: nat
  report_resetTime :: int
  remaining :: nat

record usage_report =
  sustained :: window_report
  burst :: window_report

text \<open>
  \<open>getUsage\<close> has no assignment and no \<open>Map.set\<close>; as a state-passing function it returns the
  limiter it was given. \<open>x?.count || 0\<close> is 0 for a missing entry, and \<open>x?.resetTime || now + w\<close>
  takes the default also when the stored reset time is 0.
\<close>

definition window_report_of :: "usage_window option \<Rightarrow> nat \<Rightarrow> int \<Rightarrow> window_report" where
  "window_report_of w cap dflt =
     \<lparr>report_count = (case w of None \<Rightarrow> 0 | Some d \<Rightarrow> count d),
      report_limit = cap,
      report_resetTime = (case w of None \<Rightarrow> dflt | Some d \<Rightarrow> if resetTime d = 0 then dflt else resetTime d),
      remaining = nat (max 0 (int cap - int (case w of None \<Rightarrow> 0 | Some d \<Rightarrow> count d)))\<rparr>"

definition getUsage :: "RateLimiter \<Rightarrow> string \<Rightarrow> int \<Rightarrow> usage_report \<times> RateLimiter" where
  "getUsage rl identifier now =
     (\<lparr>sustained = window_report_of (map_of (usage rl) identifier)
                     (requests_per_minute (limits rl)) (now + 60000),
       burst = window_report_of (map_of (burstUsage rl) (identifier @ '':burst''))
                 (burst_limit (limits rl)) (now + 10000)\<rparr>,
      rl)"

record all_usage =
  total_clients :: nat
  clients :: "(string \<times> usage_report) list"

text \<open>
  \<open>getAllUsage\<close> walks the sustained map in order and reports every identifier that does not
  contain \<open>:burst\<close>; \<open>clients[identifier] = ...\<close> on an object is again an update by key.
\<close>

fun getAllUsage_loop ::
  "RateLimiter \<Rightarrow> int \<Rightarrow> (string \<times> usage_window) list \<Rightarrow> (string \<times> usage_report) list
     \<Rightarrow> (string \<times> usage_report) list" where
  "getAllUsage_loop rl now [] acc = acc"
| "getAllUsage_loop rl now ((identifier, u) # rest) acc =
     getAllUsage_loop rl now rest
       (if \<not> str_includes identifier '':burst''
        then AList.update identifier (fst (getUsage rl identifier now)) acc
        else acc)"

definition getAllUsage :: "RateLimiter \<Rightarrow> int \<Rightarrow> all_usage" where
  "getAllUsage rl now =
     \<lparr>total_clients = length (usage rl),
      clients = getAllUsage_loop rl now (usage rl) []\<rparr>"

text \<open>
  The count a check compares with its limit: 0 when the identifier has no entry or the
  stored window has expired (\<open>now > resetTime\<close>), the stored count otherwise.
\<close>

definition window_count :: "usage_window option \<Rightarrow> int \<Rightarrow> nat" where
  "window_count w now = (case w of None \<Rightarrow> 0 | Some d \<Rightarrow> if now > resetTime d then 0 else count d)"

definition burst_window :: "RateLimiter \<Rightarrow> string \<Rightarrow> usage_window option" where
  "burst_window rl identifier = map_of (burstUsage rl) (identifier @ '':burst'')"

definition sustained_window :: "RateLimiter \<Rightarrow> string \<Rightarrow> usage_window option" where
  "sustained_window rl identifier = map_of (usage rl) identifier"

text \<open>A run of calls to \<open>checkLimit\<close> for one identifier, one call per clock reading.\<close>

fun checkLimit_calls ::
  "RateLimiter \<Rightarrow> string option \<Rightarrow> int list \<Rightarrow> (js_error + unit) list \<times> RateLimiter" where
  "checkLimit_calls rl identifier [] = ([], rl)"
| "checkLimit_calls rl identifier (now # later) =
     (case checkLimit rl identifier now of
        (outcome, rl') \<Rightarrow>
          (case checkLimit_calls rl' identifier later of
             (outcomes, rl'') \<Rightarrow> (outcome # outcomes, rl'')))"

definition is_burst_failure :: "js_error + unit \<Rightarrow> bool" where
  "is_burst_failure outcome =
     (case outcome of
        Inr _ \<Rightarrow> False
      | Inl e \<Rightarrow> code e = None \<and>
                 (case message e of None \<Rightarrow> False | Some m \<Rightarrow> prefix ''Burst rate limit exceeded.'' m))"

definition is_sustained_failure :: "js_error + unit \<Rightarrow> bool" where
  "is_sustained_failure outcome =
     (case outcome of
        Inr _ \<Rightarrow> False
      | Inl e \<Rightarrow> code e = Some ''RATE_LIMIT_EXCEEDED'' \<and>
                 (case message e of None \<Rightarrow> False | Some m \<Rightarrow> prefix ''Rate limit exceeded.'' m))"

text \<open>
  The window object a check works on at time \<open>now\<close>: the stored one, or a new one with
  count 0 when there is none or the stored one has expired. \<open>len\<close> is the window length.
\<close>

definition current_window :: "usage_window option \<Rightarrow> int \<Rightarrow> int \<Rightarrow> usage_window" where
  "current_window w now len =
     (case w of
        None \<Rightarrow> \<lparr>count = 0, resetTime = now + len\<rparr>
      | Some d \<Rightarrow> if now > resetTime d then \<lparr>count = 0, resetTime = now + len\<rparr> else d)"

text \<open>
  All clock readings of a run lie within one window period: none is later than the first
  reading plus the window length, so the window opened by the first call never expires.
\<close>

definition within_period :: "int list \<Rightarrow> int \<Rightarrow> bool" where
  "within_period ts len = (\<forall>t\<in>set ts. t \<le> hd ts + len)"

text \<open>
  A call at \<open>now\<close> opens a new window period: the identifier has no entry, or the period
  of the stored one is over.
\<close>

definition window_closed :: "usage_window option \<Rightarrow> int \<Rightarrow> bool" where
  "window_closed w now = (case w of None \<Rightarrow> True | Some d \<Rightarrow> now > resetTime d)"

section \<open>MetricsCollector\<close>

subsection \<open>Dates\<close>

text \<open>
  A \<open>Date\<close> is its time value, integer milliseconds since the epoch in UTC, and an ISO-8601
  timestamp string is represented by the time value it denotes. \<open>toISOString().split('T')[0]\<close>
  is the UTC calendar day; it is represented by the number of that day since 1970-01-01,
  which orders and distinguishes days exactly as the \<open>YYYY-MM-DD\<close> strings do.

  \<open>getHours\<close>, \<open>getDate\<close> and \<open>setDate\<close> work in the local time zone of the process. Following
  ECMAScript, \<open>LocalTime(t) = t + LocalTZA(t, true)\<close> and \<open>UTC(t) = t - LocalTZA(t, false)\<close>;
  the two offset functions (milliseconds, by UTC instant and by local clock reading)
  are the environment's time zone.
\<close>

record timezone =
  offset_at_utc :: "int \<Rightarrow> int"
  offset_at_local :: "int \<Rightarrow> int"

definition msPerDay :: int where
  "msPerDay = 86400000"

definition LocalTime :: "timezone \<Rightarrow> int \<Rightarrow> int" where
  "LocalTime tz t = t + offset_at_utc tz t"

definition UTC :: "timezone \<Rightarrow> int \<Rightarrow> int" where
  "UTC tz t = t - offset_at_local tz t"

definition dateKey_of :: "int \<Rightarrow> int" where
  "dateKey_of t = t div msPerDay"

definition getHours :: "timezone \<Rightarrow> int \<Rightarrow> int" where
  "getHours tz t = (LocalTime tz t div 3600000) mod 24"

text \<open>
  \<open>date.setDate(date.getDate() - i)\<close>: \<open>setDate(dt)\<close> keeps the local time within the day and
  moves to day \<open>MakeDay(year, month, dt)\<close>, which for \<open>dt = getDate() - i\<close> is the local day
  number minus \<open>i\<close>; the new local clock reading is then converted back with \<open>UTC\<close>.
\<close>

definition setDate_back :: "timezone \<Rightarrow> int \<Rightarrow> nat \<Rightarrow> int" where
  "setDate_back tz t i = UTC tz (LocalTime tz t - int i * msPerDay)"

text \<open>\<open>parseFloat(x.toFixed(4))\<close>: the nearest multiple of 1/10000, the larger one on a tie.\<close>

definition toFixed4 :: "rat \<Rightarrow> rat" where
  "toFixed4 x = of_int \<lfloor>x * 10000 + 1 / 2\<rfloor> / 10000"

subsection \<open>State\<close>

text \<open>
  Token counts are natural numbers, durations integer milliseconds, costs and averages exact
  rationals. The objects \<open>models\<close>, \<open>daily\<close> and \<open>hourly\<close> are used as dictionaries and are
  maps; model ids are taken not to name a property that every object inherits.
\<close>

record request_entry =
  model :: string
  tokens :: nat
  cost :: rat
  duration :: int
  success :: bool
  timestamp :: int

record totals =
  total_requests :: nat
  total_tokens :: nat
  total_cost :: rat
  successful_requests :: nat
  failed_requests :: nat

record model_metrics =
  model_requests :: nat
  model_tokens :: nat
  model_cost :: rat
  avg_duration :: rat
  success_rate :: rat
  total_duration :: int

record model_share =
  share_requests :: nat
  share_tokens :: nat
  share_cost :: rat

record bucket =
  bucket_requests :: nat
  bucket_tokens :: nat
  bucket_cost :: rat
  bucket_models :: "string \<rightharpoonup> model_share"

record MetricsCollector =
  requests :: "request_entry list"
  totals :: totals
  models :: "string \<rightharpoonup> model_metrics"
  daily :: "int \<rightharpoonup> bucket"
  hourly :: "int \<times> int \<rightharpoonup> bucket"

definition MetricsCollector_new :: MetricsCollector where
  "MetricsCollector_new =
     \<lparr>requests = [],
      totals = \<lparr>total_requests = 0, total_tokens = 0, total_cost = 0,
                successful_requests = 0, failed_requests = 0\<rparr>,
      models = Map.empty,
      daily = Map.empty,
      hourly = Map.empty\<rparr>"

text \<open>
  The argument of \<open>record\<close>. Every property but \<open>model\<close> has a default in the destructuring
  pattern, taken when the property is \<open>undefined\<close>.
\<close>

record metric =
  metric_model :: string
  metric_tokens :: "nat option"
  metric_cost :: "rat option"
  metric_duration :: "int option"
  metric_success :: "bool option"
  metric_timestamp :: "int option"

text \<open>
  The day bucket and the hour bucket are updated by the same statements: the bucket is
  created with zeros when missing, its three counters grow, and so do the three counters of
  the model inside it, created with zeros when missing.
\<close>

definition bump_bucket :: "string \<Rightarrow> nat \<Rightarrow> rat \<Rightarrow> bucket option \<Rightarrow> bucket" where
  "bump_bucket m tk c existing =
     (let b = (case existing of
                 None \<Rightarrow> \<lparr>bucket_requests = 0, bucket_tokens = 0, bucket_cost = 0,
                           bucket_models = Map.empty\<rparr>
               | Some b \<Rightarrow> b);
          sh = (case bucket_models b m of
                  None \<Rightarrow> \<lparr>share_requests = 0, share_tokens = 0, share_cost = 0\<rparr>
                | Some sh \<Rightarrow> sh)
      in \<lparr>bucket_requests = bucket_requests b + 1,
          bucket_tokens = bucket_tokens b + tk,
          bucket_cost = bucket_cost b + c,
          bucket_models = (bucket_models b)(m \<mapsto>
             \<lparr>share_requests = share_requests sh + 1,
              share_tokens = share_tokens sh + tk,
              share_cost = share_cost sh + c\<rparr>)\<rparr>)"

text \<open>\<open>record(metric)\<close>; \<open>now\<close> is the clock read by the default of \<open>timestamp\<close>.\<close>

definition record_metric :: "timezone \<Rightarrow> int \<Rightarrow> metric \<Rightarrow> MetricsCollector \<Rightarrow> MetricsCollector" where
  "record_metric tz now mt mc =
     (let m = metric_model mt;
          tk = (case metric_tokens mt of None \<Rightarrow> 0 | Some v \<Rightarrow> v);
          c = (case metric_cost mt of None \<Rightarrow> 0 | Some v \<Rightarrow> v);
          d = (case metric_duration mt of None \<Rightarrow> 0 | Some v \<Rightarrow> v);
          ok = (case metric_success mt of None \<Rightarrow> True | Some v \<Rightarrow> v);
          ts = (case metric_timestamp mt of None \<Rightarrow> now | Some v \<Rightarrow> v);
          dateKey = dateKey_of ts;
          hourKey = (dateKey, getHours tz ts);
          log = requests mc @ [\<lparr>model = m, tokens = tk, cost = c, duration = d, success = ok,
                                timestamp = ts\<rparr>];
          tot = totals mc;
          tot' = \<lparr>total_requests = total_requests tot + 1,
                  total_tokens = total_tokens tot + tk,
                  total_cost = total_cost tot + c,
                  successful_requests = (if ok then successful_requests tot + 1 else successful_requests tot),
                  failed_requests = (if ok then failed_requests tot else failed_requests tot + 1)\<rparr>;
          mm = (case models mc m of
                  None \<Rightarrow> \<lparr>model_requests = 0, model_tokens = 0, model_cost = 0, avg_duration = 0,
                            success_rate = 0, total_duration = 0\<rparr>
                | Some mm \<Rightarrow> mm);
          modelRequests = filter (\<lambda>r. model r = m) log;
          successfulModelRequests = length (filter success modelRequests);
          mm' = \<lparr>model_requests = model_requests mm + 1,
                 model_tokens = model_tokens mm + tk,
                 model_cost = model_cost mm + c,
                 avg_duration = of_int (total_duration mm + d) / of_nat (model_requests mm + 1),
                 success_rate = of_nat successfulModelRequests / of_nat (length modelRequests) * 100,
                 total_duration = total_duration mm + d\<rparr>
      in \<lparr>requests = log,
          totals = tot',
          models = (models mc)(m \<mapsto> mm'),
          daily = (daily mc)(dateKey \<mapsto> bump_bucket m tk c (daily mc dateKey)),
          hourly = (hourly mc)(hourKey \<mapsto> bump_bucket m tk c (hourly mc hourKey))\<rparr>)"

text \<open>Recording a sequence of metrics, each with the clock reading of its call.\<close>

fun record_all :: "timezone \<Rightarrow> (int \<times> metric) list \<Rightarrow> MetricsCollector \<Rightarrow> MetricsCollector" where
  "record_all tz [] mc = mc"
| "record_all tz ((now, mt) # rest) mc = record_all tz rest (record_metric tz now mt mc)"

record daily_usage =
  date :: int
  day_requests :: nat
  day_tokens :: nat
  day_cost :: rat

text \<open>
  \<open>getDailyUsage(days = 7)\<close>: the loop runs \<open>i\<close> from \<open>days - 1\<close> down to 0 and pushes one
  entry per round; \<open>today\<close> is the clock read by \<open>new Date()\<close>.
\<close>

definition day_entry :: "timezone \<Rightarrow> int \<Rightarrow> MetricsCollector \<Rightarrow> nat \<Rightarrow> daily_usage" where
  "day_entry tz today mc i =
     (let dateKey = dateKey_of (setDate_back tz today i)
      in case daily mc dateKey of
           None \<Rightarrow> \<lparr>date = dateKey, day_requests = 0, day_tokens = 0, day_cost = toFixed4 0\<rparr>
         | Some dayData \<Rightarrow>
             \<lparr>date = dateKey, day_requests = bucket_requests dayData,
              day_tokens = bucket_tokens dayData, day_cost = toFixed4 (bucket_cost dayData)\<rparr>)"

fun getDailyUsage_loop :: "timezone \<Rightarrow> int \<Rightarrow> MetricsCollector \<Rightarrow> nat \<Rightarrow> daily_usage list" where
  "getDailyUsage_loop tz today mc 0 = []"
| "getDailyUsage_loop tz today mc (Suc i) = day_entry tz today mc i # getDailyUsage_loop tz today mc i"

definition getDailyUsage :: "timezone \<Rightarrow> int \<Rightarrow> MetricsCollector \<Rightarrow> nat option \<Rightarrow> daily_usage list" where
  "getDailyUsage tz today mc days =
     getDailyUsage_loop tz today mc (case days of None \<Rightarrow> 7 | Some n \<Rightarrow> n)"

text \<open>
  A time zone with a constant offset, and Central European time around the change to
  summer time on 2024-03-31 at 01:00 UTC (offset one hour before, two hours after; local
  clock readings from 03:00 of that day on are summer time).
\<close>

definition fixed_zone :: "int \<Rightarrow> timezone" where
  "fixed_zone off = \<lparr>offset_at_utc = (\<lambda>t. off), offset_at_local = (\<lambda>t. off)\<rparr>"

definition berlin_2024 :: timezone where
  "berlin_2024 =
     \<lparr>offset_at_utc = (\<lambda>t. if t < 1711846800000 then 3600000 else 7200000),
      offset_at_local = (\<lambda>t. if t < 1711854000000 then 3600000 else 7200000)\<rparr>"

section \<open>ModelRouter\<close>

text \<open>
  The arguments of a request, the result an adapter returns, and the router. The router owns
  a rate limiter and a metrics collector; its adapters are a \<open>Map\<close> from model id to adapter,
  again an association list. An adapter's \<open>call\<close> either returns a result or throws, and the
  selector's \<open>selectBestModel\<close> either returns a model id or throws: both are collaborators
  of the router and enter as functions of the arguments. Within one request every adapter
  is called at most once. The \<open>await\<close>s of one request run in sequence; requests are not
  interleaved.
\<close>

record preferences =
  preferences_model :: "string option"
  prioritize :: "string option"

record query_args =
  query :: "string option"
  args_context :: "string option"
  args_model :: "string option"
  args_preferences :: "preferences option"
  client_id :: "string option"
  user_id :: "string option"

record query_result =
  response :: string
  result_model :: string
  usage_total_tokens :: "nat option"
  result_cost :: "rat option"

record ModelRouter =
  fallback_model :: "string option"
  adapters :: "(string \<times> (query_args \<Rightarrow> js_error + query_result)) list"
  selectBestModel :: "query_args \<Rightarrow> js_error + string"
  rateLimiter :: RateLimiter
  metrics :: MetricsCollector

text \<open>The clock readings of one \<open>routeQuery\<close> call, in the order the code takes them.\<close>

record clock =
  startTime :: int
  checkTime :: int
  endTime :: int
  recordTime :: int

text \<open>\<open>Array.prototype.join\<close>.\<close>

fun join :: "string \<Rightarrow> string list \<Rightarrow> string" where
  "join sep [] = []"
| "join sep [x] = x"
| "join sep (x # y # ys) = x @ sep @ join sep (y # ys)"

definition not_available_error :: "string \<Rightarrow> string list \<Rightarrow> js_error" where
  "not_available_error modelId availableModels =
     \<lparr>message = Some (''Model not available: '' @ modelId @ ''. Available models: ''
                        @ join '', '' availableModels),
      code = None,
      retryAfter = None\<rparr>"

definition shouldUseFallback :: "js_error \<Rightarrow> bool" where
  "shouldUseFallback error =
     (let fallbackCodes = [''MODEL_NOT_AVAILABLE'', ''RATE_LIMIT_EXCEEDED'', ''QUOTA_EXCEEDED'', ''TIMEOUT'']
      in (case code error of None \<Rightarrow> False | Some c \<Rightarrow> c \<in> set fallbackCodes)
         \<or> (case message error of None \<Rightarrow> False | Some m \<Rightarrow> str_includes m ''not available'')
         \<or> (case message error of None \<Rightarrow> False | Some m \<Rightarrow> str_includes m ''rate limit'')
         \<or> (case message error of None \<Rightarrow> False | Some m \<Rightarrow> str_includes m ''quota''))"

text \<open>
  \<open>callModel\<close>. Next to its outcome the model returns the list of model ids \<open>callModel\<close> was
  entered with, in order: the first is the id asked for, a second one is the fallback.
  The missing adapter is detected before the \<open>try\<close> block, so that exception leaves
  \<open>callModel\<close> directly; an exception of \<open>adapter.call\<close> is caught, and the call is repeated
  with the fallback model under the three conditions of the \<open>if\<close>.
\<close>

function callModel ::
  "ModelRouter \<Rightarrow> string \<Rightarrow> query_args \<Rightarrow> (js_error + query_result) \<times> string list" where
  "callModel r modelId args =
     (case map_of (adapters r) modelId of
        None \<Rightarrow> (Inl (not_available_error modelId (map fst (adapters r))), [modelId])
      | Some adapter \<Rightarrow>
          (case adapter args of
             Inr result \<Rightarrow> (Inr result, [modelId])
           | Inl error \<Rightarrow>
               if shouldUseFallback error \<and> truthy (fallback_model r)
                  \<and> Some modelId \<noteq> fallback_model r
               then (case callModel r (the (fallback_model r)) args of
                       (outcome, entered) \<Rightarrow> (outcome, modelId # entered))
               else (Inl error, [modelId])))"
  by pat_completeness auto
termination
  by (relation "measure (\<lambda>(r, modelId, args). if Some modelId = fallback_model r then 0 else 1)")
     (auto simp: truthy_def split: option.splits)

definition getClientIdentifier :: "query_args \<Rightarrow> string" where
  "getClientIdentifier args =
     (if truthy (client_id args) then the (client_id args)
      else if truthy (user_id args) then the (user_id args)
      else ''anonymous'')"

text \<open>
  \<open>recordMetrics\<close>: \<open>result?.usage?.total_tokens || 0\<close> and \<open>result?.cost || 0\<close> are 0 when the
  result is \<open>null\<close> or lacks the property. The \<open>try\<close> around \<open>metrics.record\<close> has nothing to
  catch, since the timestamp handed over is that of a valid date.
\<close>

definition recordMetrics ::
  "timezone \<Rightarrow> int \<Rightarrow> MetricsCollector \<Rightarrow> string \<Rightarrow> query_result option \<Rightarrow> int \<Rightarrow> bool
     \<Rightarrow> MetricsCollector" where
  "recordMetrics tz now mc modelId result dur ok =
     record_metric tz now
       \<lparr>metric_model = modelId,
        metric_tokens = Some (case result of
                                None \<Rightarrow> 0
                              | Some res \<Rightarrow> (case usage_total_tokens res of None \<Rightarrow> 0 | Some n \<Rightarrow> n)),
        metric_cost = Some (case result of
                              None \<Rightarrow> 0
                            | Some res \<Rightarrow> (case result_cost res of None \<Rightarrow> 0 | Some c \<Rightarrow> c)),
        metric_duration = Some dur,
        metric_success = Some ok,
        metric_timestamp = Some now\<rparr>
       mc"

text \<open>The \<open>catch\<close> block of \<open>routeQuery\<close>: record a failure under \<open>args.model || 'unknown'\<close>, rethrow.\<close>

definition routeQuery_catch ::
  "timezone \<Rightarrow> clock \<Rightarrow> ModelRouter \<Rightarrow> query_args \<Rightarrow> js_error
     \<Rightarrow> (js_error + query_result) \<times> ModelRouter" where
  "routeQuery_catch tz clk r args error =
     (Inl error,
      r\<lparr>metrics := recordMetrics tz (recordTime clk) (metrics r)
                      (if truthy (args_model args) then the (args_model args) else ''unknown'')
                      None (endTime clk - startTime clk) False\<rparr>)"

definition routeQuery ::
  "timezone \<Rightarrow> clock \<Rightarrow> ModelRouter \<Rightarrow> query_args \<Rightarrow> (js_error + query_result) \<times> ModelRouter" where
  "routeQuery tz clk r args =
     (case checkLimit (rateLimiter r) (Some (getClientIdentifier args)) (checkTime clk) of
        (Inl error, rl') \<Rightarrow> routeQuery_catch tz clk (r\<lparr>rateLimiter := rl'\<rparr>) args error
      | (Inr _, rl') \<Rightarrow>
          (let r' = r\<lparr>rateLimiter := rl'\<rparr>
           in case (if truthy (args_model args) then Inr (the (args_model args))
                    else selectBestModel r' args) of
                Inl error \<Rightarrow> routeQuery_catch tz clk r' args error
              | Inr modelId \<Rightarrow>
                  (case fst (callModel r' modelId args) of
                     Inl error \<Rightarrow> routeQuery_catch tz clk r' args error
                   | Inr result \<Rightarrow>
                       (Inr result,
                        r'\<lparr>metrics := recordMetrics tz (recordTime clk) (metrics r') modelId
                                          (Some result) (endTime clk - startTime clk) True\<rparr>))))"

section \<open>ModelSelector: the score of a model\<close>

subsection \<open>Numbers\<close>

text \<open>
  A JavaScript number is an IEEE-754 double: a finite double, which is a rational number,
  one of the two infinities, or \<open>NaN\<close>. The sign of zero is not kept: it shows only in a
  division by zero, and \<open>calculateScore\<close> never divides by zero.
\<close>

datatype double = Fin rat | PosInf | NegInf | NaN

text \<open>The number of binary digits of a positive integer.\<close>

function bitlen :: "int \<Rightarrow> int" where
  "bitlen p = (if p \<le> 0 then 0 else 1 + bitlen (p div 2))"
  by pat_completeness auto
termination
  by (relation "measure nat") auto

definition pow2 :: "int \<Rightarrow> rat" where
  "pow2 e = (if 0 \<le> e then 2 ^ nat e else 1 / 2 ^ nat (- e))"

text \<open>For \<open>a > 0\<close>, the \<open>e\<close> with \<open>2^e \<le> a < 2^(e+1)\<close>.\<close>

definition exponent_of :: "rat \<Rightarrow> int" where
  "exponent_of a =
     (case quotient_of a of
        (p, q) \<Rightarrow>
          (let k = bitlen p - bitlen q
           in if pow2 k \<le> a then k else k - 1))"

definition round_half_even :: "rat \<Rightarrow> int" where
  "round_half_even m =
     (let n = \<lfloor>m\<rfloor>; d = m - of_int n
      in if d < 1 / 2 then n
         else if 1 / 2 < d then n + 1
         else if even n then n else n + 1)"

text \<open>
  Rounding to nearest, to the even significand on a tie: for \<open>x \<noteq> 0\<close> with
  \<open>2^e \<le> |x| < 2^(e+1)\<close> the candidates around \<open>x\<close> are the multiples of \<open>2^(e-52)\<close>, and of
  \<open>2^(-1074)\<close> below the normal range. \<open>binary64\<close> rounds without an upper limit on the
  exponent; \<open>dround\<close> is the rounding of a double operation, which replaces a rounded
  magnitude of \<open>2^1024\<close> or more by an infinity.
\<close>

definition binary64 :: "rat \<Rightarrow> rat" where
  "binary64 x =
     (if x = 0 then 0
      else (let a = \<bar>x\<bar>;
                quantum = pow2 (max (exponent_of a - 52) (- 1074))
            in sgn x * of_int (round_half_even (a / quantum)) * quantum))"

definition dround :: "rat \<Rightarrow> double" where
  "dround x =
     (let r = binary64 x
      in if 1024 \<le> exponent_of \<bar>r\<bar> then (if 0 < r then PosInf else NegInf) else Fin r)"

text \<open>The operators \<open>+\<close>, \<open>*\<close> and \<open>/\<close> on numbers.\<close>

fun dadd :: "double \<Rightarrow> double \<Rightarrow> double" where
  "dadd (Fin a) (Fin b) = dround (a + b)"
| "dadd NaN y = NaN"
| "dadd x NaN = NaN"
| "dadd PosInf NegInf = NaN"
| "dadd NegInf PosInf = NaN"
| "dadd PosInf y = PosInf"
| "dadd x PosInf = PosInf"
| "dadd NegInf y = NegInf"
| "dadd x NegInf = NegInf"

fun dmul :: "double \<Rightarrow> double \<Rightarrow> double" where
  "dmul (Fin a) (Fin b) = dround (a * b)"
| "dmul NaN y = NaN"
| "dmul x NaN = NaN"
| "dmul PosInf (Fin b) = (if b = 0 then NaN else if 0 < b then PosInf else NegInf)"
| "dmul NegInf (Fin b) = (if b = 0 then NaN else if 0 < b then NegInf else PosInf)"
| "dmul (Fin a) PosInf = (if a = 0 then NaN else if 0 < a then PosInf else NegInf)"
| "dmul (Fin a) NegInf = (if a = 0 then NaN else if 0 < a then NegInf else PosInf)"
| "dmul PosInf PosInf = PosInf"
| "dmul NegInf NegInf = PosInf"
| "dmul PosInf NegInf = NegInf"
| "dmul NegInf PosInf = NegInf"

fun ddiv :: "double \<Rightarrow> double \<Rightarrow> double" where
  "ddiv (Fin a) (Fin b) =
     (if b = 0 then (if a = 0 then NaN else if 0 < a then PosInf else NegInf)
      else dround (a / b))"
| "ddiv NaN y = NaN"
| "ddiv x NaN = NaN"
| "ddiv (Fin a) PosInf = Fin 0"
| "ddiv (Fin a) NegInf = Fin 0"
| "ddiv PosInf (Fin b) = (if 0 \<le> b then PosInf else NegInf)"
| "ddiv NegInf (Fin b) = (if 0 \<le> b then NegInf else PosInf)"
| "ddiv x y = NaN"

subsection \<open>Objects\<close>

text \<open>
  An object with number-valued properties is the list of its own (name, value) entries in
  the order \<open>Object.entries\<close> yields them. Reading a property by name finds an own
  property first; for one of the names every object inherits from \<open>Object.prototype\<close> it
  finds a function (or, for \<open>__proto__\<close>, an object), which is not \<open>undefined\<close> and is
  \<open>NaN\<close> as a factor of a product, and by that number it is represented here; any other
  name is \<open>undefined\<close>.
\<close>

definition Object_prototype_properties :: "string list" where
  "Object_prototype_properties =
     [''constructor'', ''__defineGetter__'', ''__defineSetter__'', ''hasOwnProperty'',
      ''__lookupGetter__'', ''__lookupSetter__'', ''isPrototypeOf'', ''propertyIsEnumerable'',
      ''toString'', ''valueOf'', ''__proto__'', ''toLocaleString'']"

definition get_property :: "(string \<times> double) list \<Rightarrow> string \<Rightarrow> double option" where
  "get_property obj name =
     (case map_of obj name of
        Some v \<Rightarrow> Some v
      | None \<Rightarrow> if name \<in> set Object_prototype_properties then Some NaN else None)"

subsection \<open>calculateScore\<close>

text \<open>\<open>sum || 1\<close> replaces a sum that is 0 or \<open>NaN\<close> by 1.\<close>

definition calculateScore :: "(string \<times> double) list \<Rightarrow> (string \<times> double) list \<Rightarrow> double" where
  "calculateScore queryAnalysis capabilities =
     (let sum = foldl dadd (Fin 0) (map snd queryAnalysis);
          totalWeight = (if sum = Fin 0 \<or> sum = NaN then Fin 1 else sum)
      in foldl (\<lambda>score (aspect, queryWeight).
                  case get_property capabilities aspect of
                    None \<Rightarrow> score
                  | Some capability \<Rightarrow>
                      (let normalizedWeight = ddiv queryWeight totalWeight
                       in dadd score (dmul normalizedWeight capability)))
               (Fin 0) queryAnalysis)"

text \<open>The rows of \<open>buildCapabilityMatrix\<close>; all scores are finite numbers.\<close>

definition finite_entries :: "(string \<times> rat) list \<Rightarrow> (string \<times> double) list" where
  "finite_entries obj = map (\<lambda>(name, x). (name, Fin x)) obj"

definition capability_row :: "rat list \<Rightarrow> (string \<times> rat) list" where
  "capability_row scores =
     zip [''reasoning'', ''coding'', ''analysis'', ''math'', ''creative'', ''speed'', ''cost'',
          ''multimodal''] scores"

definition buildCapabilityMatrix :: "(string \<times> (string \<times> rat) list) list" where
  "buildCapabilityMatrix =
     [(''o3'', capability_row [10, 9, 10, 10, 7, 4, 3, 0]),
      (''o3-pro'', capability_row [10, 10, 10, 10, 8, 2, 1, 0]),
      (''o3-mini'', capability_row [8, 8, 8, 8, 6, 8, 9, 0]),
      (''gemini-pro'', capability_row [8, 8, 9, 8, 9, 8, 8, 10]),
      (''gemini-1.5-pro'', capability_row [9, 8, 9, 8, 9, 7, 6, 10]),
      (''claude-3-5-sonnet'', capability_row [9, 9, 9, 8, 9, 7, 6, 0]),
      (''gpt-4'', capability_row [8, 8, 8, 7, 8, 6, 4, 0]),
      (''gpt-4-turbo'', capability_row [8, 8, 8, 7, 8, 7, 5, 8])]"

definition gpt4_scores :: "(string \<times> rat) list" where
  "gpt4_scores = (case map_of buildCapabilityMatrix ''gpt-4'' of None \<Rightarrow> [] | Some row \<Rightarrow> row)"

text \<open>
  The dot product in the words of the specification: every weight divided by the sum of
  all weights (by 1 when the sum is 0), times the score of the model on that axis, an axis
  the model lacks contributing 0; in exact arithmetic and without an order.
\<close>

definition normalized_dot_product :: "(string \<times> rat) list \<Rightarrow> (string \<rightharpoonup> rat) \<Rightarrow> rat" where
  "normalized_dot_product queryAnalysis capabilities =
     (let total = (\<Sum>(aspect, weight) \<in> set queryAnalysis. weight)
      in \<Sum>(aspect, weight) \<in> set queryAnalysis.
           (case capabilities aspect of
              None \<Rightarrow> 0
            | Some capability \<Rightarrow> weight / (if total = 0 then 1 else total) * capability))"

text \<open>
  The unit roundoff of a double, and the relation used to follow the rounding errors
  through a computation on non-negative numbers: \<open>a\<close> approximates \<open>b\<close> after \<open>k\<close> roundings
  when each is at least \<open>(1 - 2^(-53))^k\<close> times the other.
\<close>

definition unit_roundoff :: rat where
  "unit_roundoff = 1 / 2 ^ 53"

definition approx :: "nat \<Rightarrow> rat \<Rightarrow> rat \<Rightarrow> bool" where
  "approx k a b =
     ((1 - unit_roundoff) ^ k * b \<le> a \<and> (1 - unit_roundoff) ^ k * a \<le> b)"

section \<open>The fallback rule in the words of the specification, and example configurations\<close>

text \<open>
  The specification's condition on the failure: the normalized code is one of
  \<open>RATE_LIMIT_EXCEEDED\<close>, \<open>QUOTA_EXCEEDED\<close>, \<open>TIMEOUT\<close>, or the message matches
  \<open>/not available|rate limit|quota/\<close>. It is written from the specification, to be compared
  with \<open>shouldUseFallback\<close>.
\<close>

definition spec_retryable :: "js_error \<Rightarrow> bool" where
  "spec_retryable error =
     ((case code error of
         None \<Rightarrow> False
       | Some c \<Rightarrow> c \<in> {''RATE_LIMIT_EXCEEDED'', ''QUOTA_EXCEEDED'', ''TIMEOUT''})
      \<or> (case message error of
            None \<Rightarrow> False
          | Some m \<Rightarrow> str_includes m ''not available'' \<or> str_includes m ''rate limit''
                       \<or> str_includes m ''quota''))"

text \<open>
  A router with adapters for \<open>M1\<close> and \<open>M2\<close>, fallback \<open>M2\<close>, a selector that picks \<open>M1\<close>, the
  default limits and no metrics yet; adapters and selectors that always throw or always
  answer; a request for a given model.
\<close>

definition throwing :: "js_error \<Rightarrow> query_args \<Rightarrow> js_error + 'a" where
  "throwing error args = Inl error"

definition answering :: "'a \<Rightarrow> query_args \<Rightarrow> js_error + 'a" where
  "answering result args = Inr result"

definition M2_result :: query_result where
  "M2_result = \<lparr>response = ''fallback answer'', result_model = ''M2'',
                usage_total_tokens = Some 120, result_cost = Some (3 / 250)\<rparr>"

definition two_model_router ::
  "(query_args \<Rightarrow> js_error + query_result) \<Rightarrow> (query_args \<Rightarrow> js_error + query_result) \<Rightarrow> ModelRouter" where
  "two_model_router M1_adapter M2_adapter =
     \<lparr>fallback_model = Some ''M2'',
      adapters = [(''M1'', M1_adapter), (''M2'', M2_adapter)],
      selectBestModel = answering ''M1'',
      rateLimiter = RateLimiter_new \<lparr>per_user_requests_per_minute = None,
                                     config_requests_per_minute = None, config_burst_limit = None\<rparr>,
      metrics = MetricsCollector_new\<rparr>"

definition request_for :: "string option \<Rightarrow> query_args" where
  "request_for m = \<lparr>query = Some ''x'', args_context = None, args_model = m,
                    args_preferences = None, client_id = None, user_id = None\<rparr>"

definition at_noon :: clock where
  "at_noon = \<lparr>startTime = 43200000, checkTime = 43200001, endTime = 43200750, recordTime = 43200751\<rparr>"

section \<open>Properties of the RateLimiter\<close>

declare string_of_nat.simps [simp del]

lemma count_current_window: "count (current_window w now len) = window_count w now"
  by (simp add: current_window_def window_count_def split: option.splits)

lemma current_window_live: "0 \<le> len \<Longrightarrow> now \<le> resetTime (current_window w now len)"
  by (simp add: current_window_def split: option.splits)

lemma current_window_Some_live:
  "now \<le> resetTime d \<Longrightarrow> current_window (Some d) now len = d"
  by (simp add: current_window_def)

lemma checkBurstLimit_eq:
  "checkBurstLimit rl i now =
     (let d = current_window (burst_window rl i) now 10000
      in if burst_limit (limits rl) \<le> count d
         then (Inl (burst_error (ceil_seconds (resetTime d - now))),
               rl\<lparr>burstUsage := AList.update (i @ '':burst'') d (burstUsage rl)\<rparr>)
         else (Inr (),
               rl\<lparr>burstUsage := AList.update (i @ '':burst'') (d\<lparr>count := count d + 1\<rparr>) (burstUsage rl)\<rparr>))"
  by (simp add: checkBurstLimit_def current_window_def burst_window_def Let_def split: option.splits)

lemma checkSustainedLimit_eq:
  "checkSustainedLimit rl i now =
     (let d = current_window (sustained_window rl i) now 60000
      in if requests_per_minute (limits rl) \<le> count d
         then (Inl (sustained_error (ceil_seconds (resetTime d - now))),
               rl\<lparr>usage := AList.update i d (usage rl)\<rparr>)
         else (Inr (),
               rl\<lparr>usage := AList.update i (d\<lparr>count := count d + 1\<rparr>) (usage rl)\<rparr>))"
  by (simp add: checkSustainedLimit_def current_window_def sustained_window_def Let_def split: option.splits)

lemma burst_failure_simps:
  "is_burst_failure (Inl (burst_error n))"
  "\<not> is_burst_failure (Inl (sustained_error n))"
  "\<not> is_burst_failure (Inr u)"
  by (simp_all add: is_burst_failure_def burst_error_def sustained_error_def)

lemma sustained_failure_simps:
  "is_sustained_failure (Inl (sustained_error n))"
  "\<not> is_sustained_failure (Inl (burst_error n))"
  "\<not> is_sustained_failure (Inr u)"
  by (simp_all add: is_sustained_failure_def burst_error_def sustained_error_def)

lemma burst_window_update:
  "burst_window (rl\<lparr>burstUsage := AList.update (i @ '':burst'') d (burstUsage rl)\<rparr>) i = Some d"
  by (simp add: burst_window_def update_conv')

lemma window_frame [simp]:
  "sustained_window (rl\<lparr>burstUsage := b\<rparr>) i = sustained_window rl i"
  "burst_window (rl\<lparr>usage := u\<rparr>) i = burst_window rl i"
  by (simp_all add: sustained_window_def burst_window_def)

subsection \<open>Reading the usage\<close>

lemma getAllUsage_loop_keys:
  "fst ` set (getAllUsage_loop rl now us acc) \<subseteq> fst ` set us \<union> fst ` set acc"
proof (induction us arbitrary: acc)
  case Nil
  then show ?case by simp
next
  case (Cons p us)
  obtain k u where p: "p = (k, u)" by (cases p)
  show ?case
    using Cons.IH [of "if \<not> str_includes k '':burst'' then AList.update k (fst (getUsage rl k now)) acc else acc"]
    by (auto simp: p dom_update split: if_splits)
qed

lemma window_report_of_None:
  "report_count (window_report_of None cap dflt) = 0"
  "remaining (window_report_of None cap dflt) = cap"
  by (simp_all add: window_report_of_def)

text \<open>
  C7. \<open>getUsage\<close> returns the limiter unchanged, so nothing \<open>getAllUsage\<close> reports afterwards
  differs from before. For an identifier with no sustained entry the sustained report has
  count 0 and remaining equal to the per-minute limit, and the identifier is not among the
  clients of \<open>getAllUsage\<close> afterwards; with no burst entry the burst report has count 0 and
  remaining equal to the burst limit.
\<close>

theorem getUsage_read_only:
  assumes "getUsage rl i now = (report, rl')"
  shows "rl' = rl
       \<and> getAllUsage rl' later = getAllUsage rl later
       \<and> (sustained_window rl i = None \<longrightarrow>
            report_count (sustained report) = 0
          \<and> remaining (sustained report) = requests_per_minute (limits rl)
          \<and> i \<notin> fst ` set (clients (getAllUsage rl' later)))
       \<and> (burst_window rl i = None \<longrightarrow>
            report_count (burst report) = 0
          \<and> remaining (burst report) = burst_limit (limits rl))"
proof -
  have same: "rl' = rl" using assms by (simp add: getUsage_def)
  have rep: "report = fst (getUsage rl i now)" using assms by simp
  have absent: "i \<notin> fst ` set (clients (getAllUsage rl later))" if "sustained_window rl i = None"
  proof -
    from that have "i \<notin> fst ` set (usage rl)"
      by (simp add: sustained_window_def map_of_eq_None_iff)
    with getAllUsage_loop_keys [of rl later "usage rl" "[]"] show ?thesis
      by (auto simp: getAllUsage_def)
  qed
  show ?thesis
    using absent
    by (simp add: same rep getUsage_def window_report_of_None sustained_window_def burst_window_def)
qed

theorem getUsage_read_only_witness:
  "getUsage (RateLimiter_new \<lparr>per_user_requests_per_minute = Some 50,
                               config_requests_per_minute = None, config_burst_limit = Some 10\<rparr>)
            ''alice'' 1000
     = (\<lparr>sustained = \<lparr>report_count = 0, report_limit = 50, report_resetTime = 61000, remaining = 50\<rparr>,
         burst = \<lparr>report_count = 0, report_limit = 10, report_resetTime = 11000, remaining = 10\<rparr>\<rparr>,
        RateLimiter_new \<lparr>per_user_requests_per_minute = Some 50,
                          config_requests_per_minute = None, config_burst_limit = Some 10\<rparr>)
   \<and> sustained_window (RateLimiter_new \<lparr>per_user_requests_per_minute = Some 50,
                          config_requests_per_minute = None, config_burst_limit = Some 10\<rparr>) ''alice'' = None
   \<and> burst_window (RateLimiter_new \<lparr>per_user_requests_per_minute = Some 50,
                          config_requests_per_minute = None, config_burst_limit = Some 10\<rparr>) ''alice'' = None
   \<and> ''alice'' \<notin> fst ` set (clients (getAllUsage (RateLimiter_new \<lparr>per_user_requests_per_minute = Some 50,
                          config_requests_per_minute = None, config_burst_limit = Some 10\<rparr>) 2000))"
  using getUsage_read_only
          [of "RateLimiter_new \<lparr>per_user_requests_per_minute = Some 50,
                                 config_requests_per_minute = None, config_burst_limit = Some 10\<rparr>"
              "''alice''" 1000 _ _ 2000]
  by (simp add: getUsage_def RateLimiter_new_def window_report_of_def sustained_window_def
        burst_window_def)

subsection \<open>One call to checkLimit\<close>

text \<open>
  C9. When the burst window of an identifier is below its limit and its sustained window is
  at its limit, \<open>checkLimit\<close> throws the sustained error, and the limiter it leaves behind
  differs from the one it found: the burst count of the identifier has gone up by one.
\<close>

theorem checkLimit_sustained_rejection_consumes_burst:
  assumes below: "window_count (burst_window rl i) now < burst_limit (limits rl)"
      and at_limit: "requests_per_minute (limits rl) \<le> window_count (sustained_window rl i) now"
      and call: "checkLimit rl (Some i) now = (outcome, rl')"
  shows "outcome = Inl (sustained_error
                        (ceil_seconds (resetTime (current_window (sustained_window rl i) now 60000) - now)))
       \<and> is_sustained_failure outcome
       \<and> window_count (burst_window rl' i) now = window_count (burst_window rl i) now + 1
       \<and> rl' \<noteq> rl"
proof -
  let ?b = "current_window (burst_window rl i) now 10000"
  let ?rl1 = "rl\<lparr>burstUsage := AList.update (i @ '':burst'') (?b\<lparr>count := count ?b + 1\<rparr>) (burstUsage rl)\<rparr>"
  have b: "checkBurstLimit rl i now = (Inr (), ?rl1)"
    using below by (simp add: checkBurstLimit_eq Let_def count_current_window)
  let ?s = "current_window (sustained_window rl i) now 60000"
  let ?rl2 = "?rl1\<lparr>usage := AList.update i ?s (usage ?rl1)\<rparr>"
  have s: "checkSustainedLimit ?rl1 i now = (Inl (sustained_error (ceil_seconds (resetTime ?s - now))), ?rl2)"
    using at_limit by (simp add: checkSustainedLimit_eq Let_def count_current_window)
  have res: "outcome = Inl (sustained_error (ceil_seconds (resetTime ?s - now)))" "rl' = ?rl2"
    using call b s by (simp_all add: checkLimit_def)
  have bw: "burst_window rl' i = Some (?b\<lparr>count := count ?b + 1\<rparr>)"
    unfolding res by (simp add: burst_window_def update_conv')
  have live: "now \<le> resetTime ?b" by (rule current_window_live) simp
  have cnt: "window_count (burst_window rl' i) now = window_count (burst_window rl i) now + 1"
    using live by (simp add: bw window_count_def count_current_window)
  have "burst_window rl' i \<noteq> burst_window rl i"
  proof
    assume "burst_window rl' i = burst_window rl i"
    then have "window_count (burst_window rl' i) now = window_count (burst_window rl i) now" by simp
    with cnt show False by simp
  qed
  then have "rl' \<noteq> rl" by auto
  with res cnt show ?thesis by (simp add: sustained_failure_simps)
qed

theorem checkLimit_sustained_rejection_consumes_burst_witness:
  "window_count (burst_window
      \<lparr>limits = \<lparr>requests_per_minute = 2, burst_limit = 10\<rparr>,
       usage = [(''bob'', \<lparr>count = 2, resetTime = 60000\<rparr>)],
       burstUsage = [(''bob:burst'', \<lparr>count = 2, resetTime = 10000\<rparr>)]\<rparr> ''bob'') 1000 = 2
   \<and> window_count (sustained_window
      \<lparr>limits = \<lparr>requests_per_minute = 2, burst_limit = 10\<rparr>,
       usage = [(''bob'', \<lparr>count = 2, resetTime = 60000\<rparr>)],
       burstUsage = [(''bob:burst'', \<lparr>count = 2, resetTime = 10000\<rparr>)]\<rparr> ''bob'') 1000 = 2
   \<and> checkLimit
      \<lparr>limits = \<lparr>requests_per_minute = 2, burst_limit = 10\<rparr>,
       usage = [(''bob'', \<lparr>count = 2, resetTime = 60000\<rparr>)],
       burstUsage = [(''bob:burst'', \<lparr>count = 2, resetTime = 10000\<rparr>)]\<rparr> (Some ''bob'') 1000
     = (Inl (sustained_error 59),
        \<lparr>limits = \<lparr>requests_per_minute = 2, burst_limit = 10\<rparr>,
         usage = [(''bob'', \<lparr>count = 2, resetTime = 60000\<rparr>)],
         burstUsage = [(''bob:burst'', \<lparr>count = 3, resetTime = 10000\<rparr>)]\<rparr>)"
proof -
  let ?rl = "\<lparr>limits = \<lparr>requests_per_minute = 2, burst_limit = 10\<rparr>,
              usage = [(''bob'', \<lparr>count = 2, resetTime = 60000\<rparr>)],
              burstUsage = [(''bob:burst'', \<lparr>count = 2, resetTime = 10000\<rparr>)]\<rparr>"
  have b: "window_count (burst_window ?rl ''bob'') 1000 = 2"
    by (simp add: window_count_def burst_window_def)
  have s: "window_count (sustained_window ?rl ''bob'') 1000 = 2"
    by (simp add: window_count_def sustained_window_def)
  have c: "checkLimit ?rl (Some ''bob'') 1000
             = (fst (checkLimit ?rl (Some ''bob'') 1000), snd (checkLimit ?rl (Some ''bob'') 1000))"
    by simp
  have "fst (checkLimit ?rl (Some ''bob'') 1000) = Inl (sustained_error 59)"
    using checkLimit_sustained_rejection_consumes_burst [OF _ _ c] b s
    by (simp add: current_window_def sustained_window_def ceil_seconds_def)
  moreover have "snd (checkLimit ?rl (Some ''bob'') 1000)
      = \<lparr>limits = \<lparr>requests_per_minute = 2, burst_limit = 10\<rparr>,
         usage = [(''bob'', \<lparr>count = 2, resetTime = 60000\<rparr>)],
         burstUsage = [(''bob:burst'', \<lparr>count = 3, resetTime = 10000\<rparr>)]\<rparr>"
    by (simp add: checkLimit_def checkBurstLimit_def checkSustainedLimit_def Let_def)
  ultimately show ?thesis using b s by (simp add: prod_eq_iff)
qed

subsection \<open>Runs of calls within one window period\<close>

lemma checkLimit_calls_append:
  "checkLimit_calls rl ident (ts @ us) =
     (case checkLimit_calls rl ident ts of
        (outs, rl') \<Rightarrow> (case checkLimit_calls rl' ident us of (outs', rl'') \<Rightarrow> (outs @ outs', rl'')))"
  by (induction ts arbitrary: rl) (auto split: prod.splits)

text \<open>A call that finds the burst window below its limit and is not rejected by the sustained check.\<close>

lemma checkLimit_burst_step:
  assumes below: "window_count (burst_window rl i) now < burst_limit (limits rl)"
      and call: "checkLimit rl (Some i) now = (out, rl')"
      and ns: "\<not> is_sustained_failure out"
  shows "out = Inr ()
       \<and> burst_window rl' i = Some ((current_window (burst_window rl i) now 10000)
                                       \<lparr>count := window_count (burst_window rl i) now + 1\<rparr>)
       \<and> limits rl' = limits rl"
  using assms
  by (auto simp: checkLimit_def checkBurstLimit_eq checkSustainedLimit_eq Let_def
        count_current_window burst_window_update sustained_failure_simps
      split: if_splits)

lemma checkLimit_burst_live_run:
  assumes "burst_window rl i = Some d" "\<forall>t\<in>set ts. t \<le> resetTime d"
      and "count d + length ts \<le> burst_limit (limits rl)"
      and "checkLimit_calls rl (Some i) ts = (outs, rl')"
      and "\<forall>out\<in>set outs. \<not> is_sustained_failure out"
  shows "outs = replicate (length ts) (Inr ())
       \<and> burst_window rl' i = Some (d\<lparr>count := count d + length ts\<rparr>) \<and> limits rl' = limits rl"
  using assms
proof (induction ts arbitrary: rl d outs)
  case Nil
  then show ?case by simp
next
  case (Cons t ts)
  obtain out rl1 where c1: "checkLimit rl (Some i) t = (out, rl1)" by (cases "checkLimit rl (Some i) t")
  obtain outs1 where c2: "checkLimit_calls rl1 (Some i) ts = (outs1, rl')" and o: "outs = out # outs1"
    using Cons.prems(4) c1 by (auto split: prod.splits)
  have wc: "window_count (burst_window rl i) t = count d" "current_window (burst_window rl i) t 10000 = d"
    using Cons.prems(1,2) by (simp_all add: window_count_def current_window_def)
  have step: "out = Inr () \<and> burst_window rl1 i = Some (d\<lparr>count := count d + 1\<rparr>) \<and> limits rl1 = limits rl"
    using checkLimit_burst_step [OF _ c1] Cons.prems(3,5) o by (simp add: wc)
  have "outs1 = replicate (length ts) (Inr ())
       \<and> burst_window rl' i = Some ((d\<lparr>count := count d + 1\<rparr>)\<lparr>count := count (d\<lparr>count := count d + 1\<rparr>) + length ts\<rparr>)
       \<and> limits rl' = limits rl1"
    using Cons.prems(2,3,5) o step by (intro Cons.IH [OF _ _ _ c2]) simp_all
  with step o show ?case by simp
qed

lemma checkLimit_burst_full:
  assumes "burst_window rl i = Some d" "now \<le> resetTime d" "burst_limit (limits rl) \<le> count d"
  shows "fst (checkLimit rl (Some i) now) = Inl (burst_error (ceil_seconds (resetTime d - now)))"
  using assms
  by (simp add: checkLimit_def checkBurstLimit_eq Let_def current_window_Some_live)

lemma burst_window_run:
  assumes fresh: "window_closed (burst_window rl i) (hd (ts @ [t']))"
      and len: "length ts = burst_limit (limits rl)"
      and period: "within_period (ts @ [t']) 10000"
      and other: "\<forall>out\<in>set (fst (checkLimit_calls rl (Some i) (ts @ [t']))). \<not> is_sustained_failure out"
  shows "fst (checkLimit_calls rl (Some i) (ts @ [t'])) =
           replicate (length ts) (Inr ()) @ [Inl (burst_error (ceil_seconds (hd (ts @ [t']) + 10000 - t')))]"
proof (cases ts)
  case Nil
  have "current_window (burst_window rl i) t' 10000 = \<lparr>count = 0, resetTime = t' + 10000\<rparr>"
    using fresh Nil by (simp add: window_closed_def current_window_def split: option.splits)
  then show ?thesis using len Nil
    by (simp add: checkLimit_def checkBurstLimit_eq Let_def split: prod.splits)
next
  case (Cons t0 rest)
  obtain out0 rl0 where c0: "checkLimit rl (Some i) t0 = (out0, rl0)" by (cases "checkLimit rl (Some i) t0")
  obtain outs1 rl1 where c1: "checkLimit_calls rl0 (Some i) rest = (outs1, rl1)"
    by (cases "checkLimit_calls rl0 (Some i) rest")
  obtain out2 rl2 where c2: "checkLimit rl1 (Some i) t' = (out2, rl2)" by (cases "checkLimit rl1 (Some i) t'")
  have all: "fst (checkLimit_calls rl (Some i) (ts @ [t'])) = out0 # outs1 @ [out2]"
    by (simp add: Cons c0 c1 c2 checkLimit_calls_append)
  have wc: "window_count (burst_window rl i) t0 = 0"
    and cw: "current_window (burst_window rl i) t0 10000 = \<lparr>count = 0, resetTime = t0 + 10000\<rparr>"
    using fresh Cons
    by (simp_all add: window_closed_def window_count_def current_window_def split: option.splits)
  have s0: "out0 = Inr () \<and> burst_window rl0 i = Some \<lparr>count = 1, resetTime = t0 + 10000\<rparr> \<and> limits rl0 = limits rl"
    using checkLimit_burst_step [OF _ c0] other all len Cons by (simp add: wc cw)
  have times: "\<forall>t\<in>set rest. t \<le> t0 + 10000" "t' \<le> t0 + 10000"
    using period by (simp_all add: within_period_def Cons)
  have run: "outs1 = replicate (length rest) (Inr ())
       \<and> burst_window rl1 i = Some (\<lparr>count = 1, resetTime = t0 + 10000\<rparr>\<lparr>count := 1 + length rest\<rparr>)
       \<and> limits rl1 = limits rl0"
    using checkLimit_burst_live_run [OF _ _ _ c1, of "\<lparr>count = 1, resetTime = t0 + 10000\<rparr>"]
      s0 times len Cons other all by simp
  have "out2 = Inl (burst_error (ceil_seconds (t0 + 10000 - t')))"
    using checkLimit_burst_full [of rl1 i "\<lparr>count = 1 + length rest, resetTime = t0 + 10000\<rparr>" t']
      run s0 times len Cons c2 by simp
  with all s0 run show ?thesis by (simp add: Cons replicate_append_same)
qed

text \<open>The same for the sustained window, for calls that the burst check lets through.\<close>

lemma checkLimit_sustained_step:
  assumes below: "window_count (sustained_window rl i) now < requests_per_minute (limits rl)"
      and call: "checkLimit rl (Some i) now = (out, rl')"
      and ns: "\<not> is_burst_failure out"
  shows "out = Inr ()
       \<and> sustained_window rl' i = Some ((current_window (sustained_window rl i) now 60000)
                                       \<lparr>count := window_count (sustained_window rl i) now + 1\<rparr>)
       \<and> limits rl' = limits rl"
  using assms
  by (auto simp: checkLimit_def checkBurstLimit_eq checkSustainedLimit_eq Let_def
        count_current_window sustained_window_def update_conv' burst_failure_simps
      split: if_splits)

lemma checkLimit_sustained_live_run:
  assumes "sustained_window rl i = Some d" "\<forall>t\<in>set ts. t \<le> resetTime d"
      and "count d + length ts \<le> requests_per_minute (limits rl)"
      and "checkLimit_calls rl (Some i) ts = (outs, rl')"
      and "\<forall>out\<in>set outs. \<not> is_burst_failure out"
  shows "outs = replicate (length ts) (Inr ())
       \<and> sustained_window rl' i = Some (d\<lparr>count := count d + length ts\<rparr>) \<and> limits rl' = limits rl"
  using assms
proof (induction ts arbitrary: rl d outs)
  case Nil
  then show ?case by simp
next
  case (Cons t ts)
  obtain out rl1 where c1: "checkLimit rl (Some i) t = (out, rl1)" by (cases "checkLimit rl (Some i) t")
  obtain outs1 where c2: "checkLimit_calls rl1 (Some i) ts = (outs1, rl')" and o: "outs = out # outs1"
    using Cons.prems(4) c1 by (auto split: prod.splits)
  have wc: "window_count (sustained_window rl i) t = count d"
           "current_window (sustained_window rl i) t 60000 = d"
    using Cons.prems(1,2) by (simp_all add: window_count_def current_window_def)
  have step: "out = Inr () \<and> sustained_window rl1 i = Some (d\<lparr>count := count d + 1\<rparr>) \<and> limits rl1 = limits rl"
    using checkLimit_sustained_step [OF _ c1] Cons.prems(3,5) o by (simp add: wc)
  have "outs1 = replicate (length ts) (Inr ())
       \<and> sustained_window rl' i = Some ((d\<lparr>count := count d + 1\<rparr>)\<lparr>count := count (d\<lparr>count := count d + 1\<rparr>) + length ts\<rparr>)
       \<and> limits rl' = limits rl1"
    using Cons.prems(2,3,5) o step by (intro Cons.IH [OF _ _ _ c2]) simp_all
  with step o show ?case by simp
qed

lemma checkLimit_sustained_full:
  assumes "sustained_window rl i = Some d" "now \<le> resetTime d" "requests_per_minute (limits rl) \<le> count d"
      and "\<not> is_burst_failure (fst (checkLimit rl (Some i) now))"
  shows "fst (checkLimit rl (Some i) now) = Inl (sustained_error (ceil_seconds (resetTime d - now)))"
  using assms
  by (auto simp: checkLimit_def checkBurstLimit_eq checkSustainedLimit_eq Let_def current_window_Some_live
       burst_failure_simps split: if_splits)

lemma sustained_window_run:
  assumes fresh: "window_closed (sustained_window rl i) (hd (ts @ [t']))"
      and len: "length ts = requests_per_minute (limits rl)"
      and period: "within_period (ts @ [t']) 60000"
      and other: "\<forall>out\<in>set (fst (checkLimit_calls rl (Some i) (ts @ [t']))). \<not> is_burst_failure out"
  shows "fst (checkLimit_calls rl (Some i) (ts @ [t'])) =
           replicate (length ts) (Inr ()) @ [Inl (sustained_error (ceil_seconds (hd (ts @ [t']) + 60000 - t')))]"
proof (cases ts)
  case Nil
  have "current_window (sustained_window rl i) t' 60000 = \<lparr>count = 0, resetTime = t' + 60000\<rparr>"
    using fresh Nil by (simp add: window_closed_def current_window_def split: option.splits)
  then show ?thesis using len Nil other
    by (auto simp add: checkLimit_def checkBurstLimit_eq checkSustainedLimit_eq Let_def
          burst_failure_simps split: prod.splits if_splits)
next
  case (Cons t0 rest)
  obtain out0 rl0 where c0: "checkLimit rl (Some i) t0 = (out0, rl0)" by (cases "checkLimit rl (Some i) t0")
  obtain outs1 rl1 where c1: "checkLimit_calls rl0 (Some i) rest = (outs1, rl1)"
    by (cases "checkLimit_calls rl0 (Some i) rest")
  obtain out2 rl2 where c2: "checkLimit rl1 (Some i) t' = (out2, rl2)" by (cases "checkLimit rl1 (Some i) t'")
  have all: "fst (checkLimit_calls rl (Some i) (ts @ [t'])) = out0 # outs1 @ [out2]"
    by (simp add: Cons c0 c1 c2 checkLimit_calls_append)
  have wc: "window_count (sustained_window rl i) t0 = 0"
    and cw: "current_window (sustained_window rl i) t0 60000 = \<lparr>count = 0, resetTime = t0 + 60000\<rparr>"
    using fresh Cons
    by (simp_all add: window_closed_def window_count_def current_window_def split: option.splits)
  have s0: "out0 = Inr () \<and> sustained_window rl0 i = Some \<lparr>count = 1, resetTime = t0 + 60000\<rparr> \<and> limits rl0 = limits rl"
    using checkLimit_sustained_step [OF _ c0] other all len Cons by (simp add: wc cw)
  have times: "\<forall>t\<in>set rest. t \<le> t0 + 60000" "t' \<le> t0 + 60000"
    using period by (simp_all add: within_period_def Cons)
  have run: "outs1 = replicate (length rest) (Inr ())
       \<and> sustained_window rl1 i = Some (\<lparr>count = 1, resetTime = t0 + 60000\<rparr>\<lparr>count := 1 + length rest\<rparr>)
       \<and> limits rl1 = limits rl0"
    using checkLimit_sustained_live_run [OF _ _ _ c1, of "\<lparr>count = 1, resetTime = t0 + 60000\<rparr>"]
      s0 times len Cons other all by simp
  have "out2 = Inl (sustained_error (ceil_seconds (t0 + 60000 - t')))"
    using checkLimit_sustained_full [of rl1 i "\<lparr>count = 1 + length rest, resetTime = t0 + 60000\<rparr>" t']
      run s0 times len Cons c2 other all by simp
  with all s0 run show ?thesis by (simp add: Cons replicate_append_same)
qed

text \<open>After an admitted call both windows of the identifier hold a count within their limit.\<close>

lemma checkLimit_admitted_counts:
  assumes "checkLimit rl (Some i) now = (Inr u, rl')"
  shows "limits rl' = limits rl
       \<and> (\<exists>b. burst_window rl' i = Some b \<and> count b \<le> burst_limit (limits rl))
       \<and> (\<exists>s. sustained_window rl' i = Some s \<and> count s \<le> requests_per_minute (limits rl))"
  using assms
  by (auto simp: checkLimit_def checkBurstLimit_eq checkSustainedLimit_eq Let_def
        burst_window_def sustained_window_def update_conv'
      split: if_splits prod.splits sum.splits)

text \<open>
  C4, as stated, fails. With the default limits (burst 10, per minute 50) fifty calls at the
  same instant lie within one sustained period, yet the fiftieth is rejected, by the burst
  check: the two windows are checked one after the other, and either can reject a call
  that the other would admit.
\<close>


theorem checkLimit_counterexample:
  "requests_per_minute (limits (RateLimiter_new
       \<lparr>per_user_requests_per_minute = None, config_requests_per_minute = None, config_burst_limit = None\<rparr>)) = 50
   \<and> within_period (replicate 50 0) 60000
   \<and> fst (checkLimit_calls
            (RateLimiter_new
               \<lparr>per_user_requests_per_minute = None, config_requests_per_minute = None, config_burst_limit = None\<rparr>)
            (Some ''client'') (replicate 50 0)) ! 49
       = Inl (burst_error 10)"
  by code_simp

text \<open>
  C4, amended. Take a call that opens a new period of a window for an identifier (there is
  no entry, or the stored period is over), and let it be the first of as many calls as the
  window's limit, followed by one more, all within that period and none of them rejected by
  the check of the other window. Then all calls but the last succeed and the last fails
  with the error of this window (the burst error for the burst window, the sustained error
  with its code for the sustained window). And whenever \<open>checkLimit\<close> admits a call, both
  windows of the identifier afterwards hold a count no larger than their limit.
\<close>

theorem checkLimit_window_limits:
  "(window_closed (burst_window rl i) (hd (bs @ [b'])) \<and> length bs = burst_limit (limits rl)
      \<and> within_period (bs @ [b']) 10000
      \<and> (\<forall>out\<in>set (fst (checkLimit_calls rl (Some i) (bs @ [b']))). \<not> is_sustained_failure out)
    \<longrightarrow> fst (checkLimit_calls rl (Some i) (bs @ [b']))
          = replicate (burst_limit (limits rl)) (Inr ())
            @ [Inl (burst_error (ceil_seconds (hd (bs @ [b']) + 10000 - b')))])
 \<and> (window_closed (sustained_window rl i) (hd (ss @ [s'])) \<and> length ss = requests_per_minute (limits rl)
      \<and> within_period (ss @ [s']) 60000
      \<and> (\<forall>out\<in>set (fst (checkLimit_calls rl (Some i) (ss @ [s']))). \<not> is_burst_failure out)
    \<longrightarrow> fst (checkLimit_calls rl (Some i) (ss @ [s']))
          = replicate (requests_per_minute (limits rl)) (Inr ())
            @ [Inl (sustained_error (ceil_seconds (hd (ss @ [s']) + 60000 - s')))])
 \<and> (checkLimit rl (Some i) now = (Inr u, rl')
    \<longrightarrow> limits rl' = limits rl
      \<and> (\<exists>b. burst_window rl' i = Some b \<and> count b \<le> burst_limit (limits rl))
      \<and> (\<exists>s. sustained_window rl' i = Some s \<and> count s \<le> requests_per_minute (limits rl)))"
  using burst_window_run [of rl i bs b'] sustained_window_run [of rl i ss s']
    checkLimit_admitted_counts [of rl i now u rl']
  by (auto simp del: set_append)

theorem checkLimit_window_limits_witness:
  "burst_window (RateLimiter_new \<lparr>per_user_requests_per_minute = Some 3, config_requests_per_minute = None,
                                  config_burst_limit = Some 2\<rparr>) ''carol'' = None
   \<and> within_period [0, 5, 7] 10000
   \<and> fst (checkLimit_calls (RateLimiter_new \<lparr>per_user_requests_per_minute = Some 3, config_requests_per_minute = None,
                                  config_burst_limit = Some 2\<rparr>) (Some ''carol'') [0, 5, 7])
       = [Inr (), Inr (), Inl (burst_error 10)]
   \<and> within_period [0, 1, 10001, 10002] 60000
   \<and> fst (checkLimit_calls (RateLimiter_new \<lparr>per_user_requests_per_minute = Some 3, config_requests_per_minute = None,
                                  config_burst_limit = Some 2\<rparr>) (Some ''carol'') [0, 1, 10001, 10002])
       = [Inr (), Inr (), Inr (), Inl (sustained_error 50)]
   \<and> (\<exists>b. burst_window (snd (checkLimit (RateLimiter_new \<lparr>per_user_requests_per_minute = Some 3,
              config_requests_per_minute = None, config_burst_limit = Some 2\<rparr>) (Some ''carol'') 0)) ''carol'' = Some b
          \<and> count b \<le> 2)"
proof -
  let ?rl = "RateLimiter_new \<lparr>per_user_requests_per_minute = Some 3, config_requests_per_minute = None,
                                  config_burst_limit = Some 2\<rparr>"
  have lim: "burst_limit (limits ?rl) = 2" "requests_per_minute (limits ?rl) = 3"
    by (simp_all add: RateLimiter_new_def)
  have fresh: "burst_window ?rl ''carol'' = None" "sustained_window ?rl ''carol'' = None"
    by (simp_all add: RateLimiter_new_def burst_window_def sustained_window_def)
  have closed: "window_closed (burst_window ?rl ''carol'') (hd ([0, 5] @ [7]))"
               "window_closed (sustained_window ?rl ''carol'') (hd ([0, 1, 10001] @ [10002]))"
    by (simp_all add: fresh window_closed_def)
  have per: "within_period ([0, 5] @ [7]) 10000" "within_period ([0, 1, 10001] @ [10002]) 60000"
    by (simp_all add: within_period_def)
  have nb: "\<forall>out\<in>set (fst (checkLimit_calls ?rl (Some ''carol'') ([0, 5] @ [7]))). \<not> is_sustained_failure out"
    by code_simp
  have ns: "\<forall>out\<in>set (fst (checkLimit_calls ?rl (Some ''carol'') ([0, 1, 10001] @ [10002]))). \<not> is_burst_failure out"
    by code_simp
  have adm: "checkLimit ?rl (Some ''carol'') 0 = (Inr (), snd (checkLimit ?rl (Some ''carol'') 0))"
    by code_simp
  note inst = checkLimit_window_limits [of ?rl "''carol''" "[0, 5]" 7 "[0, 1, 10001]" 10002 0 "()"
                "snd (checkLimit ?rl (Some ''carol'') 0)"]
  have b: "fst (checkLimit_calls ?rl (Some ''carol'') ([0, 5] @ [7])) = [Inr (), Inr (), Inl (burst_error 10)]"
    using inst closed per nb lim by (simp add: ceil_seconds_def numeral_2_eq_2 del: set_append append.simps)
  have s: "fst (checkLimit_calls ?rl (Some ''carol'') ([0, 1, 10001] @ [10002]))
             = [Inr (), Inr (), Inr (), Inl (sustained_error 50)]"
    using inst closed per ns lim by (simp add: ceil_seconds_def numeral_3_eq_3 del: set_append append.simps)
  have a: "\<exists>b. burst_window (snd (checkLimit ?rl (Some ''carol'') 0)) ''carol'' = Some b \<and> count b \<le> 2"
    using inst [THEN conjunct2, THEN conjunct2, THEN mp, OF adm] lim
    by auto
  show ?thesis using fresh per b s a by simp
qed

section \<open>Properties of the MetricsCollector\<close>

subsection \<open>Totals and the request log\<close>

lemma record_metric_counts:
  "length (requests (record_metric tz now mt mc)) = length (requests mc) + 1"
  "total_requests (totals (record_metric tz now mt mc)) = total_requests (totals mc) + 1"
  "successful_requests (totals (record_metric tz now mt mc))
     + failed_requests (totals (record_metric tz now mt mc))
     = successful_requests (totals mc) + failed_requests (totals mc) + 1"
  by (simp_all add: record_metric_def Let_def)

lemma record_all_counts:
  "length (requests (record_all tz entries mc)) = length (requests mc) + length entries
 \<and> total_requests (totals (record_all tz entries mc)) = total_requests (totals mc) + length entries
 \<and> successful_requests (totals (record_all tz entries mc))
     + failed_requests (totals (record_all tz entries mc))
     = successful_requests (totals mc) + failed_requests (totals mc) + length entries"
proof (induction entries arbitrary: mc)
  case Nil
  then show ?case by simp
next
  case (Cons e entries)
  obtain now mt where e: "e = (now, mt)" by (cases e)
  show ?case
    using Cons.IH [of "record_metric tz now mt mc"] by (simp add: e record_metric_counts)
qed

text \<open>
  C5. After any sequence of entries has been recorded into a new collector, the total number
  of requests is the number of entries, the successful and the failed requests add up to
  it, and it is the length of the stored request log.
\<close>

theorem record_totals_consistent:
  "total_requests (totals (record_all tz entries MetricsCollector_new)) = length entries
 \<and> successful_requests (totals (record_all tz entries MetricsCollector_new))
     + failed_requests (totals (record_all tz entries MetricsCollector_new))
     = total_requests (totals (record_all tz entries MetricsCollector_new))
 \<and> total_requests (totals (record_all tz entries MetricsCollector_new))
     = length (requests (record_all tz entries MetricsCollector_new))"
  using record_all_counts [of tz entries MetricsCollector_new]
  by (simp add: MetricsCollector_new_def)

subsection \<open>Daily usage\<close>

lemma getDailyUsage_loop_length: "length (getDailyUsage_loop tz today mc n) = n"
  by (induction n) simp_all

lemma date_day_entry: "date (day_entry tz today mc i) = dateKey_of (setDate_back tz today i)"
  by (simp add: day_entry_def Let_def split: option.splits)

lemma toFixed4_zero: "toFixed4 0 = 0"
proof -
  have "\<lfloor>(1::rat) / 2\<rfloor> = 0" by (rule floor_unique) simp_all
  then show ?thesis by (simp add: toFixed4_def)
qed

lemma getDailyUsage_loop_dates:
  "map date (getDailyUsage_loop tz today mc n)
     = map (\<lambda>i. dateKey_of (setDate_back tz today i)) (rev [0..<n])"
  by (induction n) (simp_all add: date_day_entry)

text \<open>Seven entries come back whatever the state, and a day without a bucket is zero-filled.\<close>

lemma getDailyUsage_seven: "length (getDailyUsage tz today mc (Some 7)) = 7"
  by (simp add: getDailyUsage_def getDailyUsage_loop_length)

lemma day_entry_zero_filled:
  "daily mc (date (day_entry tz today mc i)) = None \<Longrightarrow>
     day_requests (day_entry tz today mc i) = 0 \<and> day_tokens (day_entry tz today mc i) = 0
     \<and> day_cost (day_entry tz today mc i) = 0"
  by (auto simp: day_entry_def Let_def toFixed4_zero split: option.splits)

text \<open>In a time zone without changes of offset the seven days are the last seven UTC days.\<close>

lemma setDate_back_fixed: "setDate_back (fixed_zone off) t i = t - int i * msPerDay"
  by (simp add: setDate_back_def UTC_def LocalTime_def fixed_zone_def)

lemma dateKey_of_back: "dateKey_of (t - int i * msPerDay) = dateKey_of t - int i"
  by (simp add: dateKey_of_def msPerDay_def)

lemma getDailyUsage_fixed_zone:
  "map date (getDailyUsage (fixed_zone off) today mc (Some 7))
     = map (\<lambda>i. dateKey_of today - i) [6, 5, 4, 3, 2, 1, 0]"
  by (simp add: getDailyUsage_def getDailyUsage_loop_dates setDate_back_fixed dateKey_of_back
        upt_rec del: getDailyUsage_loop.simps)

text \<open>
  C8 fails where the offset of the local time zone changed within the last week.
  On 2024-04-02 at 23:30 UTC (day 19815; 01:30 of April 3 in Central European summer time)
  \<open>getDailyUsage(7)\<close> steps back through local days at 01:30 local time. From March 31 back,
  01:30 local time is winter time, and March 31 01:30 local is still March 31 in UTC, as is
  April 1 01:30 local: March 31 (day 19813) comes twice, and March 27 (day 19809), the
  seventh day back, does not come at all.
\<close>

theorem getDailyUsage_summer_time:
  "map date (getDailyUsage berlin_2024 1712100600000 mc (Some 7))
     = [19810, 19811, 19812, 19813, 19813, 19814, 19815]
   \<and> dateKey_of 1712100600000 = 19815"
  by (simp add: getDailyUsage_def getDailyUsage_loop_dates upt_rec setDate_back_def UTC_def
        LocalTime_def berlin_2024_def dateKey_of_def msPerDay_def del: getDailyUsage_loop.simps)

section \<open>Properties of the ModelRouter\<close>

declare callModel.simps [simp del]

subsection \<open>callModel\<close>

lemma callModel_missing:
  "map_of (adapters r) modelId = None \<Longrightarrow>
     callModel r modelId args = (Inl (not_available_error modelId (map fst (adapters r))), [modelId])"
  by (subst callModel.simps) simp

lemma callModel_fallback_itself:
  assumes "fallback_model r = Some fb"
  shows "callModel r fb args =
     (case map_of (adapters r) fb of
        None \<Rightarrow> Inl (not_available_error fb (map fst (adapters r)))
      | Some adapter \<Rightarrow> adapter args, [fb])"
  using assms by (subst callModel.simps) (auto split: option.splits sum.splits)

lemma callModel_adapter_failure:
  assumes "map_of (adapters r) modelId = Some adapter" and "adapter args = Inl error"
  shows "callModel r modelId args =
           (if shouldUseFallback error \<and> truthy (fallback_model r) \<and> Some modelId \<noteq> fallback_model r
            then (case map_of (adapters r) (the (fallback_model r)) of
                    None \<Rightarrow> Inl (not_available_error (the (fallback_model r)) (map fst (adapters r)))
                  | Some fallback \<Rightarrow> fallback args,
                  [modelId, the (fallback_model r)])
            else (Inl error, [modelId]))"
proof (cases "shouldUseFallback error \<and> truthy (fallback_model r) \<and> Some modelId \<noteq> fallback_model r")
  case True
  then obtain fb where fb: "fallback_model r = Some fb"
    by (auto simp: truthy_def split: option.splits)
  show ?thesis
    using True assms
    by (subst callModel.simps)
       (simp add: callModel_fallback_itself [OF fb] fb split: option.splits)
next
  case False
  then show ?thesis using assms
    by (subst callModel.simps) auto
qed

lemma shouldUseFallback_iff:
  "shouldUseFallback error = (spec_retryable error \<or> code error = Some ''MODEL_NOT_AVAILABLE'')"
  by (auto simp: shouldUseFallback_def spec_retryable_def split: option.splits)

text \<open>
  C2, as stated, fails: \<open>shouldUseFallback\<close> has a fourth code, \<open>MODEL_NOT_AVAILABLE\<close>. An
  adapter failure with that code and a message matching none of the three patterns is not
  retryable in the words of the specification, yet the router enters \<open>callModel\<close> a second
  time, with the fallback \<open>M2\<close>, and returns its answer.
\<close>

theorem callModel_fallback_counterexample:
  "\<not> spec_retryable \<lparr>message = Some ''model is down'', code = Some ''MODEL_NOT_AVAILABLE'',
                      retryAfter = None\<rparr>
 \<and> callModel (two_model_router
                (throwing \<lparr>message = Some ''model is down'', code = Some ''MODEL_NOT_AVAILABLE'',
                            retryAfter = None\<rparr>)
                (answering M2_result))
             ''M1'' (request_for (Some ''M1''))
   = (Inr M2_result, [''M1'', ''M2''])"
proof -
  let ?e = "\<lparr>message = Some ''model is down'', code = Some ''MODEL_NOT_AVAILABLE'', retryAfter = None\<rparr>"
  have "\<not> spec_retryable ?e" by (simp add: spec_retryable_def)
  moreover have "shouldUseFallback ?e" by (simp add: shouldUseFallback_def)
  then have "callModel (two_model_router (throwing ?e) (answering M2_result)) ''M1'' (request_for (Some ''M1''))
           = (Inr M2_result, [''M1'', ''M2''])"
    using callModel_adapter_failure
            [of "two_model_router (throwing ?e) (answering M2_result)" "''M1''" "throwing ?e"
                "request_for (Some ''M1'')" ?e]
    by (simp add: two_model_router_def throwing_def answering_def truthy_def)
  ultimately show ?thesis by simp
qed

text \<open>
  C2, amended. When the adapter of the requested model throws, \<open>callModel\<close> is entered a
  second time, with the fallback model, exactly when the failure is retryable in the words
  of the specification or carries the code \<open>MODEL_NOT_AVAILABLE\<close>, a fallback model is
  configured, and it differs from the model just tried. The outcome is then that of the
  fallback alone (its answer, its failure, or the missing-adapter failure) and nothing is
  entered a third time; in every other case the failure of the first adapter is the outcome
  and nothing else is entered.
\<close>

theorem callModel_fallback_policy:
  assumes "map_of (adapters r) modelId = Some adapter" and "adapter args = Inl error"
  shows "callModel r modelId args =
           (if (spec_retryable error \<or> code error = Some ''MODEL_NOT_AVAILABLE'')
               \<and> truthy (fallback_model r) \<and> Some modelId \<noteq> fallback_model r
            then (case map_of (adapters r) (the (fallback_model r)) of
                    None \<Rightarrow> Inl (not_available_error (the (fallback_model r)) (map fst (adapters r)))
                  | Some fallback \<Rightarrow> fallback args,
                  [modelId, the (fallback_model r)])
            else (Inl error, [modelId]))"
  using callModel_adapter_failure [OF assms] by (simp add: shouldUseFallback_iff)

theorem callModel_fallback_policy_witness:
  "callModel (two_model_router
                (throwing \<lparr>message = Some ''upstream said no'', code = Some ''QUOTA_EXCEEDED'', retryAfter = None\<rparr>)
                (answering M2_result))
             ''M1'' (request_for (Some ''M1''))
     = (Inr M2_result, [''M1'', ''M2''])
 \<and> callModel (two_model_router
                (throwing \<lparr>message = Some ''request timed out'', code = Some ''TIMEOUT'', retryAfter = None\<rparr>)
                (throwing \<lparr>message = Some ''rate limit reached'', code = Some ''RATE_LIMIT_EXCEEDED'',
                            retryAfter = None\<rparr>))
             ''M1'' (request_for (Some ''M1''))
     = (Inl \<lparr>message = Some ''rate limit reached'', code = Some ''RATE_LIMIT_EXCEEDED'', retryAfter = None\<rparr>,
        [''M1'', ''M2''])
 \<and> callModel (two_model_router
                (throwing \<lparr>message = Some ''bad key'', code = Some ''AUTHENTICATION_FAILED'', retryAfter = None\<rparr>)
                (answering M2_result))
             ''M1'' (request_for (Some ''M1''))
     = (Inl \<lparr>message = Some ''bad key'', code = Some ''AUTHENTICATION_FAILED'', retryAfter = None\<rparr>, [''M1''])
 \<and> callModel (two_model_router
                (answering M2_result)
                (throwing \<lparr>message = Some ''quota used up'', code = Some ''QUOTA_EXCEEDED'', retryAfter = None\<rparr>))
             ''M2'' (request_for (Some ''M2''))
     = (Inl \<lparr>message = Some ''quota used up'', code = Some ''QUOTA_EXCEEDED'', retryAfter = None\<rparr>, [''M2''])"
proof -
  let ?a = "request_for (Some ''M1'')"
  let ?e1 = "\<lparr>message = Some ''upstream said no'', code = Some ''QUOTA_EXCEEDED'', retryAfter = None\<rparr>"
  let ?e2 = "\<lparr>message = Some ''request timed out'', code = Some ''TIMEOUT'', retryAfter = None\<rparr>"
  let ?e2' = "\<lparr>message = Some ''rate limit reached'', code = Some ''RATE_LIMIT_EXCEEDED'', retryAfter = None\<rparr>"
  let ?e3 = "\<lparr>message = Some ''bad key'', code = Some ''AUTHENTICATION_FAILED'', retryAfter = None\<rparr>"
  let ?e4 = "\<lparr>message = Some ''quota used up'', code = Some ''QUOTA_EXCEEDED'', retryAfter = None\<rparr>"
  have "callModel (two_model_router (throwing ?e1) (answering M2_result)) ''M1'' ?a
          = (Inr M2_result, [''M1'', ''M2''])"
    using callModel_fallback_policy
            [of "two_model_router (throwing ?e1) (answering M2_result)" "''M1''" "throwing ?e1" ?a ?e1]
    by (simp add: two_model_router_def throwing_def answering_def truthy_def spec_retryable_def)
  moreover have "callModel (two_model_router (throwing ?e2) (throwing ?e2')) ''M1'' ?a
          = (Inl ?e2', [''M1'', ''M2''])"
    using callModel_fallback_policy
            [of "two_model_router (throwing ?e2) (throwing ?e2')" "''M1''" "throwing ?e2" ?a ?e2]
    by (simp add: two_model_router_def throwing_def truthy_def spec_retryable_def)
  moreover have "callModel (two_model_router (throwing ?e3) (answering M2_result)) ''M1'' ?a
          = (Inl ?e3, [''M1''])"
    using callModel_fallback_policy
            [of "two_model_router (throwing ?e3) (answering M2_result)" "''M1''" "throwing ?e3" ?a ?e3]
    by (simp add: two_model_router_def throwing_def truthy_def spec_retryable_def)
  moreover have "callModel (two_model_router (answering M2_result) (throwing ?e4)) ''M2''
                   (request_for (Some ''M2''))
          = (Inl ?e4, [''M2''])"
    using callModel_fallback_policy
            [of "two_model_router (answering M2_result) (throwing ?e4)" "''M2''" "throwing ?e4"
                "request_for (Some ''M2'')" ?e4]
    by (simp add: two_model_router_def throwing_def truthy_def spec_retryable_def)
  ultimately show ?thesis by simp
qed

text \<open>
  C3. For a model id without a registered adapter \<open>callModel\<close> throws the missing-adapter
  error, whose message lists the ids of the registered adapters, and \<open>callModel\<close> is entered
  with that id only, never with the fallback, whatever fallback is configured. When the id
  is the explicit \<open>args.model\<close> of a request that the rate limiter admits, this is the error
  \<open>routeQuery\<close> throws.
\<close>

theorem callModel_unknown_model_terminal:
  assumes "map_of (adapters r) modelId = None"
  shows "callModel r modelId args = (Inl (not_available_error modelId (map fst (adapters r))), [modelId])
       \<and> message (not_available_error modelId (map fst (adapters r)))
           = Some (''Model not available: '' @ modelId @ ''. Available models: ''
                   @ join '', '' (map fst (adapters r)))
       \<and> (args_model args = Some modelId \<and> modelId \<noteq> []
            \<and> fst (checkLimit (rateLimiter r) (Some (getClientIdentifier args)) (checkTime clk)) = Inr ()
          \<longrightarrow> fst (routeQuery tz clk r args) = Inl (not_available_error modelId (map fst (adapters r))))"
proof -
  have cm: "callModel r' modelId args = (Inl (not_available_error modelId (map fst (adapters r))), [modelId])"
    if "adapters r' = adapters r" for r'
    using assms that callModel_missing [of r' modelId args] by simp
  have "fst (routeQuery tz clk r args) = Inl (not_available_error modelId (map fst (adapters r)))"
    if "args_model args = Some modelId" "modelId \<noteq> []"
       "fst (checkLimit (rateLimiter r) (Some (getClientIdentifier args)) (checkTime clk)) = Inr ()"
    using that cm
    by (auto simp: routeQuery_def Let_def truthy_def routeQuery_catch_def split: prod.splits sum.splits)
  with cm [of r] show ?thesis by (simp add: not_available_error_def)
qed

theorem callModel_unknown_model_terminal_witness:
  "callModel (two_model_router (answering M2_result) (answering M2_result)) ''nonexistent''
             (request_for (Some ''nonexistent''))
     = (Inl \<lparr>message = Some ''Model not available: nonexistent. Available models: M1, M2'',
             code = None, retryAfter = None\<rparr>,
        [''nonexistent''])
 \<and> fst (routeQuery (fixed_zone 0) at_noon
          (two_model_router (answering M2_result) (answering M2_result))
          (request_for (Some ''nonexistent'')))
     = Inl \<lparr>message = Some ''Model not available: nonexistent. Available models: M1, M2'',
            code = None, retryAfter = None\<rparr>"
proof -
  let ?r = "two_model_router (answering M2_result) (answering M2_result)"
  let ?a = "request_for (Some ''nonexistent'')"
  have none: "map_of (adapters ?r) ''nonexistent'' = None"
    by (simp add: two_model_router_def)
  have err: "not_available_error ''nonexistent'' (map fst (adapters ?r))
               = \<lparr>message = Some ''Model not available: nonexistent. Available models: M1, M2'',
                  code = None, retryAfter = None\<rparr>"
    by (simp add: not_available_error_def two_model_router_def)
  have adm: "fst (checkLimit (rateLimiter ?r) (Some (getClientIdentifier ?a)) (checkTime at_noon)) = Inr ()"
    by (simp add: two_model_router_def RateLimiter_new_def checkLimit_def checkBurstLimit_def
          checkSustainedLimit_def Let_def)
  have am: "args_model ?a = Some ''nonexistent''" by (simp add: request_for_def)
  show ?thesis
    using callModel_unknown_model_terminal [OF none, of ?a at_noon "fixed_zone 0"] adm am
    by (simp add: err)
qed

subsection \<open>routeQuery and the metrics it records\<close>

lemma recordMetrics_log:
  "requests (recordMetrics tz now mc modelId result dur ok) =
     requests mc @
       [\<lparr>model = modelId,
         tokens = (case result of None \<Rightarrow> 0
                   | Some res \<Rightarrow> (case usage_total_tokens res of None \<Rightarrow> 0 | Some n \<Rightarrow> n)),
         cost = (case result of None \<Rightarrow> 0
                 | Some res \<Rightarrow> (case result_cost res of None \<Rightarrow> 0 | Some c \<Rightarrow> c)),
         duration = dur, success = ok, timestamp = now\<rparr>]"
  by (simp add: recordMetrics_def record_metric_def Let_def)

lemma routeQuery_catch_log:
  "routeQuery_catch tz clk r args error = (out, r') \<Longrightarrow>
     out = Inl error \<and>
     requests (metrics r') = requests (metrics r) @
       [\<lparr>model = (if truthy (args_model args) then the (args_model args) else ''unknown''),
         tokens = 0, cost = 0, duration = endTime clk - startTime clk, success = False,
         timestamp = recordTime clk\<rparr>]"
  by (auto simp: routeQuery_catch_def recordMetrics_log)

text \<open>Every call of \<open>routeQuery\<close> appends exactly one entry to the request log.\<close>

lemma routeQuery_records_once:
  "length (requests (metrics (snd (routeQuery tz clk r args)))) = length (requests (metrics r)) + 1"
  by (auto simp: routeQuery_def routeQuery_catch_def recordMetrics_log Let_def
      split: prod.splits sum.splits)

text \<open>
  C1 fails in the scenario of the specification. The fallback is \<open>M2\<close>, the adapter of \<open>M1\<close>
  throws an error whose message contains \<open>rate limit\<close>, and the request names \<open>M1\<close>. The
  result returned is that of \<open>M2\<close> and one entry is recorded, as the claim says, but the
  entry carries the model \<open>M1\<close> together with the tokens and the cost of the answer of \<open>M2\<close>:
  \<open>routeQuery\<close> passes the id it resolved before the call to \<open>recordMetrics\<close>, whose
  parameter is documented as the model used.
\<close>

theorem routeQuery_fallback_recorded_under_requested_model:
  "fst (routeQuery tz clk
          (two_model_router
             (throwing \<lparr>message = Some ''rate limit reached'', code = None, retryAfter = None\<rparr>)
             (answering M2_result))
          (request_for (Some ''M1''))) = Inr M2_result
 \<and> result_model M2_result = ''M2''
 \<and> requests (metrics (snd (routeQuery tz clk
          (two_model_router
             (throwing \<lparr>message = Some ''rate limit reached'', code = None, retryAfter = None\<rparr>)
             (answering M2_result))
          (request_for (Some ''M1'')))))
   = [\<lparr>model = ''M1'', tokens = 120, cost = 3 / 250, duration = endTime clk - startTime clk,
       success = True, timestamp = recordTime clk\<rparr>]"
proof -
  let ?e = "\<lparr>message = Some ''rate limit reached'', code = None, retryAfter = None\<rparr>"
  let ?r = "two_model_router (throwing ?e) (answering M2_result)"
  let ?a = "request_for (Some ''M1'')"
  have sf: "shouldUseFallback ?e" by (simp add: shouldUseFallback_def)
  have cm: "callModel (?r\<lparr>rateLimiter := rl\<rparr>) ''M1'' a = (Inr M2_result, [''M1'', ''M2''])" for rl a
    using callModel_adapter_failure [of "?r\<lparr>rateLimiter := rl\<rparr>" "''M1''" "throwing ?e" a ?e] sf
    by (simp add: two_model_router_def truthy_def throwing_def answering_def)
  have cl: "fst (checkLimit (rateLimiter ?r) (Some (getClientIdentifier ?a)) (checkTime clk)) = Inr ()"
    by (simp add: two_model_router_def RateLimiter_new_def checkLimit_def checkBurstLimit_def
          checkSustainedLimit_def Let_def)
  have am: "args_model ?a = Some ''M1''" "truthy (Some ''M1'')"
    by (simp_all add: request_for_def truthy_def)
  obtain rl' where ck: "checkLimit (rateLimiter ?r) (Some (getClientIdentifier ?a)) (checkTime clk) = (Inr (), rl')"
    using cl by (cases "checkLimit (rateLimiter ?r) (Some (getClientIdentifier ?a)) (checkTime clk)") auto
  have rq: "routeQuery tz clk ?r ?a =
              (Inr M2_result,
               (?r\<lparr>rateLimiter := rl'\<rparr>)\<lparr>metrics := recordMetrics tz (recordTime clk) (metrics ?r) ''M1''
                     (Some M2_result) (endTime clk - startTime clk) True\<rparr>)"
    by (simp add: routeQuery_def ck Let_def am cm)
  show ?thesis
    by (simp add: rq recordMetrics_log)
       (simp add: M2_result_def two_model_router_def MetricsCollector_new_def)
qed

text \<open>
  C10. When \<open>routeQuery\<close> throws and the request carried no \<open>args.model\<close> (none, or the empty
  string), the one entry it appends to the request log has the model \<open>unknown\<close>, no tokens,
  no cost and \<open>success = false\<close>, whatever made the call fail: the rate limiter, the
  selector or an adapter. The id the selector had picked is not recorded.
\<close>

theorem routeQuery_failure_recorded_as_unknown:
  assumes "routeQuery tz clk r args = (Inl error, r')" and "\<not> truthy (args_model args)"
  shows "requests (metrics r') = requests (metrics r) @
           [\<lparr>model = ''unknown'', tokens = 0, cost = 0, duration = endTime clk - startTime clk,
             success = False, timestamp = recordTime clk\<rparr>]"
  using assms
  by (auto simp: routeQuery_def Let_def split: prod.splits sum.splits dest!: routeQuery_catch_log)

theorem routeQuery_failure_recorded_as_unknown_witness:
  "fst (routeQuery (fixed_zone 0) at_noon
          ((two_model_router (answering M2_result) (answering M2_result))
             \<lparr>rateLimiter := RateLimiter_new \<lparr>per_user_requests_per_minute = None,
                                 config_requests_per_minute = None, config_burst_limit = Some 0\<rparr>\<rparr>)
          (request_for None)) = Inl (burst_error 10)
 \<and> requests (metrics (snd (routeQuery (fixed_zone 0) at_noon
          ((two_model_router (answering M2_result) (answering M2_result))
             \<lparr>rateLimiter := RateLimiter_new \<lparr>per_user_requests_per_minute = None,
                                 config_requests_per_minute = None, config_burst_limit = Some 0\<rparr>\<rparr>)
          (request_for None))))
     = [\<lparr>model = ''unknown'', tokens = 0, cost = 0, duration = 750, success = False,
         timestamp = 43200751\<rparr>]
 \<and> fst (routeQuery (fixed_zone 0) at_noon
          ((two_model_router (answering M2_result) (answering M2_result))
             \<lparr>selectBestModel := throwing \<lparr>message = Some ''no model can be selected'', code = None,
                                            retryAfter = None\<rparr>\<rparr>)
          (request_for None))
     = Inl \<lparr>message = Some ''no model can be selected'', code = None, retryAfter = None\<rparr>
 \<and> requests (metrics (snd (routeQuery (fixed_zone 0) at_noon
          ((two_model_router (answering M2_result) (answering M2_result))
             \<lparr>selectBestModel := throwing \<lparr>message = Some ''no model can be selected'', code = None,
                                            retryAfter = None\<rparr>\<rparr>)
          (request_for None))))
     = [\<lparr>model = ''unknown'', tokens = 0, cost = 0, duration = 750, success = False,
         timestamp = 43200751\<rparr>]
 \<and> fst (routeQuery (fixed_zone 0) at_noon
          (two_model_router
             (throwing \<lparr>message = Some ''bad key'', code = Some ''AUTHENTICATION_FAILED'', retryAfter = None\<rparr>)
             (answering M2_result))
          (request_for None))
     = Inl \<lparr>message = Some ''bad key'', code = Some ''AUTHENTICATION_FAILED'', retryAfter = None\<rparr>
 \<and> requests (metrics (snd (routeQuery (fixed_zone 0) at_noon
          (two_model_router
             (throwing \<lparr>message = Some ''bad key'', code = Some ''AUTHENTICATION_FAILED'', retryAfter = None\<rparr>)
             (answering M2_result))
          (request_for None))))
     = [\<lparr>model = ''unknown'', tokens = 0, cost = 0, duration = 750, success = False,
         timestamp = 43200751\<rparr>]"
proof -
  let ?ra = "(two_model_router (answering M2_result) (answering M2_result))
             \<lparr>rateLimiter := RateLimiter_new \<lparr>per_user_requests_per_minute = None,
                                 config_requests_per_minute = None, config_burst_limit = Some 0\<rparr>\<rparr>"
  let ?es = "\<lparr>message = Some ''no model can be selected'', code = None, retryAfter = None\<rparr>"
  let ?rb = "(two_model_router (answering M2_result) (answering M2_result))\<lparr>selectBestModel := throwing ?es\<rparr>"
  let ?ec = "\<lparr>message = Some ''bad key'', code = Some ''AUTHENTICATION_FAILED'', retryAfter = None\<rparr>"
  let ?rc = "two_model_router (throwing ?ec) (answering M2_result)"
  let ?a = "request_for None"
  have nt: "\<not> truthy (args_model ?a)" by (simp add: request_for_def truthy_def)
  have dur: "endTime at_noon - startTime at_noon = 750" "recordTime at_noon = 43200751"
    by (simp_all add: at_noon_def)
  have fa: "fst (routeQuery (fixed_zone 0) at_noon ?ra ?a) = Inl (burst_error 10)"
    by code_simp
  have fb: "fst (routeQuery (fixed_zone 0) at_noon ?rb ?a) = Inl ?es"
    by code_simp
  have fc: "fst (routeQuery (fixed_zone 0) at_noon ?rc ?a) = Inl ?ec"
    by code_simp
  have e0: "requests (metrics (two_model_router x y)) = []" for x y
    by (simp add: two_model_router_def MetricsCollector_new_def)
  have la: "requests (metrics (snd (routeQuery (fixed_zone 0) at_noon ?ra ?a)))
      = [\<lparr>model = ''unknown'', tokens = 0, cost = 0, duration = 750, success = False, timestamp = 43200751\<rparr>]"
    using routeQuery_failure_recorded_as_unknown
            [of "fixed_zone 0" at_noon ?ra ?a "burst_error 10" "snd (routeQuery (fixed_zone 0) at_noon ?ra ?a)"]
          fa nt
    by (simp add: prod_eq_iff dur e0)
  have lb: "requests (metrics (snd (routeQuery (fixed_zone 0) at_noon ?rb ?a)))
      = [\<lparr>model = ''unknown'', tokens = 0, cost = 0, duration = 750, success = False, timestamp = 43200751\<rparr>]"
    using routeQuery_failure_recorded_as_unknown
            [of "fixed_zone 0" at_noon ?rb ?a ?es "snd (routeQuery (fixed_zone 0) at_noon ?rb ?a)"]
          fb nt
    by (simp add: prod_eq_iff dur e0)
  have lc: "requests (metrics (snd (routeQuery (fixed_zone 0) at_noon ?rc ?a)))
      = [\<lparr>model = ''unknown'', tokens = 0, cost = 0, duration = 750, success = False, timestamp = 43200751\<rparr>]"
    using routeQuery_failure_recorded_as_unknown
            [of "fixed_zone 0" at_noon ?rc ?a ?ec "snd (routeQuery (fixed_zone 0) at_noon ?rc ?a)"]
          fc nt
    by (simp add: prod_eq_iff dur e0)
  show ?thesis using fa fb fc la lb lc by simp
qed

section \<open>Properties of calculateScore\<close>

subsection \<open>Powers of two and the binary exponent\<close>
declare bitlen.simps [simp del]

lemma bitlen_pos: "0 < p \<Longrightarrow> bitlen p = 1 + bitlen (p div 2)"
  by (subst bitlen.simps) simp

lemma bitlen_nonpos: "p \<le> 0 \<Longrightarrow> bitlen p = 0"
  by (subst bitlen.simps) simp

lemma bitlen_bounds:
  "0 < p \<Longrightarrow> 1 \<le> bitlen p \<and> 2 ^ nat (bitlen p - 1) \<le> p \<and> p < 2 ^ nat (bitlen p)"
proof (induction p rule: bitlen.induct)
  case (1 p)
  show ?case
  proof (cases "p div 2 \<le> 0")
    case True
    with "1.prems" have "p = 1" by linarith
    then show ?thesis by (simp add: bitlen_pos bitlen_nonpos)
  next
    case False
    then have pos: "0 < p div 2" by simp
    from "1.IH" "1.prems" pos
    have ih: "1 \<le> bitlen (p div 2)" "2 ^ nat (bitlen (p div 2) - 1) \<le> p div 2"
             "p div 2 < 2 ^ nat (bitlen (p div 2))"
      by auto
    have b: "bitlen p = 1 + bitlen (p div 2)" using "1.prems" by (rule bitlen_pos)
    have n1: "nat (bitlen p - 1) = Suc (nat (bitlen (p div 2) - 1))" using ih(1) b by simp
    have n2: "nat (bitlen p) = Suc (nat (bitlen (p div 2)))" using ih(1) b by simp
    have "2 * 2 ^ nat (bitlen (p div 2) - 1) \<le> 2 * (p div 2)" using ih(2) by simp
    also have "\<dots> \<le> p" by simp
    finally have lo: "2 ^ nat (bitlen p - 1) \<le> p" by (simp add: n1)
    have "p div 2 + 1 \<le> 2 ^ nat (bitlen (p div 2))" using ih(3) by simp
    then have "2 * (p div 2) + 2 \<le> 2 * 2 ^ nat (bitlen (p div 2))" by simp
    moreover have "p < 2 * (p div 2) + 2" by presburger
    ultimately have hi: "p < 2 ^ nat (bitlen p)" by (simp add: n2)
    from lo hi b ih(1) show ?thesis by simp
  qed
qed

lemma pow2_power_int: "pow2 e = power_int 2 e"
  by (simp add: pow2_def power_int_def power_one_over inverse_eq_divide)

lemma pow2_pos [simp]: "0 < pow2 e"
  by (simp add: pow2_def)

lemma pow2_nonneg [simp]: "0 \<le> pow2 e"
  by (simp add: pow2_def)

lemma pow2_neq0 [simp]: "pow2 e \<noteq> 0"
  by (simp add: pow2_def)

lemma pow2_add: "pow2 (a + b) = pow2 a * pow2 b"
  by (simp add: pow2_power_int power_int_add)

lemma pow2_of_nat: "pow2 (int n) = 2 ^ n"
  by (simp add: pow2_def)

lemma pow2_diff: "pow2 (a - b) = pow2 a / pow2 b"
  by (simp add: pow2_power_int power_int_diff)

lemma pow2_mono: "a \<le> b \<Longrightarrow> pow2 a \<le> pow2 b"
  by (simp add: pow2_power_int power_int_increasing)

lemma pow2_less_imp: "pow2 a < pow2 b \<Longrightarrow> a < b"
  using pow2_mono [of b a] by (cases "a < b") auto

lemma exponent_of_bounds:
  assumes "0 < a"
  shows "pow2 (exponent_of a) \<le> a \<and> a < pow2 (exponent_of a + 1)"
proof -
  obtain p q where pq: "quotient_of a = (p, q)" by (cases "quotient_of a")
  have q: "0 < q" using pq by (rule quotient_of_denom_pos)
  have a: "a = of_int p / of_int q" using pq by (rule quotient_of_div)
  have p: "0 < p" using assms q a by (simp add: zero_less_divide_iff)
  note bp = bitlen_bounds [OF p] and bq = bitlen_bounds [OF q]
  let ?k = "bitlen p - bitlen q"
  have plt: "(of_int p :: rat) < pow2 (bitlen p)"
  proof -
    have "(of_int p :: rat) < of_int (2 ^ nat (bitlen p))" using bp by (simp only: of_int_less_iff)
    also have "\<dots> = pow2 (bitlen p)" using bp by (simp add: pow2_def)
    finally show ?thesis .
  qed
  have pge: "pow2 (bitlen p - 1) \<le> (of_int p :: rat)"
  proof -
    have "pow2 (bitlen p - 1) = of_int (2 ^ nat (bitlen p - 1))" using bp by (simp add: pow2_def)
    also have "\<dots> \<le> (of_int p :: rat)" using bp by (simp only: of_int_le_iff)
    finally show ?thesis .
  qed
  have qlt: "(of_int q :: rat) < pow2 (bitlen q)"
  proof -
    have "(of_int q :: rat) < of_int (2 ^ nat (bitlen q))" using bq by (simp only: of_int_less_iff)
    also have "\<dots> = pow2 (bitlen q)" using bq by (simp add: pow2_def)
    finally show ?thesis .
  qed
  have qge: "pow2 (bitlen q - 1) \<le> (of_int q :: rat)"
  proof -
    have "pow2 (bitlen q - 1) = of_int (2 ^ nat (bitlen q - 1))" using bq by (simp add: pow2_def)
    also have "\<dots> \<le> (of_int q :: rat)" using bq by (simp only: of_int_le_iff)
    finally show ?thesis .
  qed
  have qpos: "(0::rat) < of_int q" using q by simp
  have ppos: "(0::rat) < of_int p" using p by simp
  have up: "a < pow2 (?k + 1)"
  proof -
    have "a < pow2 (bitlen p) / of_int q" unfolding a using plt qpos by (simp add: divide_strict_right_mono)
    also have "\<dots> \<le> pow2 (bitlen p) / pow2 (bitlen q - 1)"
      by (rule frac_le) (use qge in simp_all)
    also have "\<dots> = pow2 (?k + 1)" by (simp add: pow2_diff [symmetric] algebra_simps)
    finally show ?thesis .
  qed
  have lo: "pow2 (?k - 1) < a"
  proof -
    have "pow2 (?k - 1) = pow2 (bitlen p - 1) / pow2 (bitlen q)"
      by (simp add: pow2_diff [symmetric] algebra_simps)
    also have "\<dots> < pow2 (bitlen p - 1) / of_int q"
      using qlt qpos by (simp add: divide_strict_left_mono)
    also have "\<dots> \<le> a" unfolding a using pge qpos by (simp add: divide_right_mono)
    finally show ?thesis .
  qed
  show ?thesis
  proof (cases "pow2 ?k \<le> a")
    case True
    then have "exponent_of a = ?k" by (simp add: exponent_of_def pq)
    with True up show ?thesis by simp
  next
    case False
    then have e: "exponent_of a = ?k - 1" by (simp add: exponent_of_def pq)
    from False have "a < pow2 ?k" by simp
    with lo e show ?thesis by simp
  qed
qed

subsection \<open>The rounding error of one operation\<close>

text \<open>Some doubles, as any IEEE-754 implementation prints them: 0.1, two ties, and -1.4.\<close>

lemma binary64_examples:
  "binary64 (1 / 10) = 3602879701896397 / 36028797018963968"
  "binary64 (2 ^ 53 + 1) = 2 ^ 53"
  "binary64 (2 ^ 53 + 3) = 2 ^ 53 + 4"
  "binary64 (- 7 / 5) = - (3152519739159347 / 2251799813685248)"
  by code_simp+

text \<open>
  In the normal range the rounded value differs from the exact one by at most the unit
  roundoff times the exact value.
\<close>
lemma round_half_even_error: "\<bar>of_int (round_half_even m) - m\<bar> \<le> 1 / 2"
proof -
  have "of_int \<lfloor>m\<rfloor> \<le> m" "m < of_int \<lfloor>m\<rfloor> + 1" by linarith+
  then show ?thesis
    by (auto simp: round_half_even_def Let_def abs_le_iff)
qed

lemma round_half_even_nonneg: "0 \<le> m \<Longrightarrow> 0 \<le> round_half_even m"
  by (auto simp: round_half_even_def Let_def)

lemma binary64_error:
  assumes "pow2 (- 1022) \<le> x"
  shows "\<bar>binary64 x - x\<bar> \<le> unit_roundoff * x"
proof -
  have x: "0 < x" using assms pow2_pos [of "- 1022"] by linarith
  let ?e = "exponent_of x"
  have eb: "pow2 ?e \<le> x" "x < pow2 (?e + 1)" using exponent_of_bounds [OF x] by simp_all
  have "pow2 (- 1022) < pow2 (?e + 1)" using assms eb(2) by linarith
  then have e: "- 1022 \<le> ?e" using pow2_less_imp [of "- 1022" "?e + 1"] by simp
  let ?q = "pow2 (?e - 52)"
  have "max (?e - 52) (- 1074) = ?e - 52" using e by linarith
  then have q: "pow2 (max (?e - 52) (- 1074)) = ?q" by simp
  have b: "binary64 x = of_int (round_half_even (x / ?q)) * ?q"
    using x q by (simp add: binary64_def Let_def)
  have "\<bar>binary64 x - x\<bar> = \<bar>of_int (round_half_even (x / ?q)) - x / ?q\<bar> * ?q"
  proof -
    have "binary64 x - x = (of_int (round_half_even (x / ?q)) - x / ?q) * ?q"
      by (simp add: b field_simps)
    then show ?thesis by (simp add: abs_mult)
  qed
  also have "\<dots> \<le> 1 / 2 * ?q"
    using round_half_even_error [of "x / ?q"] pow2_nonneg [of "?e - 52"]
    by (rule mult_right_mono)
  also have "\<dots> = unit_roundoff * pow2 ?e"
  proof -
    have "pow2 (?e - 52) = pow2 ?e / pow2 52" by (rule pow2_diff)
    moreover have "pow2 52 = 2 ^ 52" using pow2_of_nat [of 52] by simp
    ultimately show ?thesis by (simp add: unit_roundoff_def)
  qed
  also have "\<dots> \<le> unit_roundoff * x"
    using eb(1) by (simp add: unit_roundoff_def)
  finally show ?thesis .
qed

lemma binary64_zero: "binary64 0 = 0"
  by (simp add: binary64_def)

subsection \<open>Accumulated rounding errors\<close>
lemma rho_bounds: "0 < 1 - unit_roundoff" "1 - unit_roundoff \<le> 1" "0 \<le> unit_roundoff" "unit_roundoff \<le> 1"
  by (simp_all add: unit_roundoff_def)

lemma rho_pow: "0 < (1 - unit_roundoff) ^ k" "(1 - unit_roundoff) ^ k \<le> 1"
  using rho_bounds by (simp_all add: power_le_one)

lemma bernoulli: "1 - of_nat n * unit_roundoff \<le> (1 - unit_roundoff) ^ n"
proof (induction n)
  case 0
  then show ?case by simp
next
  case (Suc n)
  have "1 - of_nat (Suc n) * unit_roundoff
          \<le> (1 - unit_roundoff) * (1 - of_nat n * unit_roundoff)"
    using rho_bounds(3) by (simp add: algebra_simps)
  also have "\<dots> \<le> (1 - unit_roundoff) * (1 - unit_roundoff) ^ n"
    using Suc rho_bounds(1) by (simp add: mult_left_mono)
  finally show ?case by simp
qed

lemma rho_pow_half:
  assumes "k \<le> 2 ^ 52"
  shows "1 / 2 \<le> (1 - unit_roundoff) ^ k"
proof -
  have "(of_nat k :: rat) \<le> of_nat (2 ^ 52)" using assms by (simp only: of_nat_le_iff)
  then have "(of_nat k :: rat) * unit_roundoff \<le> 1 / 2"
    by (simp add: unit_roundoff_def)
  with bernoulli [of k] show ?thesis by linarith
qed

lemma mult_le_one_left: "r \<le> 1 \<Longrightarrow> 0 \<le> b \<Longrightarrow> r * b \<le> b" for r b :: rat
  using mult_right_mono [of r 1 b] by simp

lemma approx_refl: "0 \<le> b \<Longrightarrow> approx k b b"
  using rho_pow(2) [of k] by (simp add: approx_def mult_le_one_left)

lemma approx_zero: "approx k a 0 \<Longrightarrow> a = 0"
proof -
  assume "approx k a 0"
  then have "0 \<le> a" "(1 - unit_roundoff) ^ k * a \<le> 0" by (simp_all add: approx_def)
  with rho_pow(1) [of k] show "a = 0"
    by (simp add: mult_le_0_iff)
qed

lemma approx_nonneg: "approx k a b \<Longrightarrow> 0 \<le> b \<Longrightarrow> 0 \<le> a"
proof -
  assume "approx k a b" "0 \<le> b"
  then have "(1 - unit_roundoff) ^ k * b \<le> a" "0 \<le> (1 - unit_roundoff) ^ k * b"
    using rho_pow(1) [of k] by (simp_all add: approx_def)
  then show ?thesis by linarith
qed

lemma approx_weaken:
  assumes "approx k a b" "0 \<le> b" "k \<le> k'"
  shows "approx k' a b"
proof -
  have a: "0 \<le> a" using assms(1,2) by (rule approx_nonneg)
  have le: "(1 - unit_roundoff) ^ k' \<le> (1 - unit_roundoff) ^ k"
    using assms(3) rho_bounds by (simp add: power_decreasing)
  have "(1 - unit_roundoff) ^ k' * b \<le> (1 - unit_roundoff) ^ k * b"
    using le assms(2) by (rule mult_right_mono)
  moreover have "(1 - unit_roundoff) ^ k' * a \<le> (1 - unit_roundoff) ^ k * a"
    using le a by (rule mult_right_mono)
  ultimately show ?thesis using assms(1) by (auto simp: approx_def)
qed

lemma approx_add: "approx k a b \<Longrightarrow> approx k a' b' \<Longrightarrow> approx k (a + a') (b + b')"
  by (simp add: approx_def algebra_simps add_mono)

lemma approx_scale: "0 \<le> c \<Longrightarrow> approx k a b \<Longrightarrow> approx k (a * c) (b * c)"
proof -
  assume c: "0 \<le> c" and "approx k a b"
  then have "(1 - unit_roundoff) ^ k * b * c \<le> a * c" "(1 - unit_roundoff) ^ k * a * c \<le> b * c"
    by (simp_all add: approx_def mult_right_mono)
  then show ?thesis by (simp add: approx_def mult.assoc)
qed

lemma approx_divide:
  assumes "approx k t' t" "0 < t" "0 < t'" "0 \<le> w"
  shows "approx k (w / t') (w / t)"
proof -
  let ?r = "(1 - unit_roundoff) ^ k"
  from assms(1) have 1: "?r * t \<le> t'" and 2: "?r * t' \<le> t" by (simp_all add: approx_def)
  have "?r * (w / t) \<le> w / t'"
  proof -
    have "?r * w * t' \<le> w * t" using 2 assms(4) by (simp add: mult.assoc mult_left_mono mult.left_commute)
    then show ?thesis using assms(2,3) by (simp add: field_simps)
  qed
  moreover have "?r * (w / t') \<le> w / t"
  proof -
    have "?r * w * t \<le> w * t'" using 1 assms(4) by (simp add: mult.assoc mult_left_mono mult.left_commute)
    then show ?thesis using assms(2,3) by (simp add: field_simps)
  qed
  ultimately show ?thesis by (simp add: approx_def)
qed

text \<open>Rounding a value that approximates 0 or a number well inside the normal range.\<close>

lemma approx_round:
  assumes ap: "approx k a b" and k: "k \<le> 2 ^ 52" and b: "b = 0 \<or> 1 / 2 ^ 53 \<le> b"
  shows "approx (Suc k) (binary64 a) b"
proof (cases "b = 0")
  case True
  with ap have "a = 0" using approx_zero by simp
  with True show ?thesis by (simp add: binary64_zero approx_def)
next
  case False
  with b have bb: "1 / 2 ^ 53 \<le> b" by simp
  let ?r = "(1 - unit_roundoff) ^ k"
  from ap have 1: "?r * b \<le> a" and 2: "?r * a \<le> b" by (simp_all add: approx_def)
  have "1 / 2 * b \<le> ?r * b" using rho_pow_half [OF k] bb by (simp add: mult_right_mono)
  with 1 have ab: "1 / 2 * b \<le> a" by linarith
  have "pow2 (- 1022) \<le> 1 / 2 * (1 / 2 ^ 53)" by (simp add: pow2_def)
  also have "\<dots> \<le> 1 / 2 * b" using bb by simp
  finally have an: "pow2 (- 1022) \<le> a" using ab by linarith
  have a0: "0 \<le> a" using an pow2_nonneg [of "- 1022"] by linarith
  from binary64_error [OF an]
  have lo: "(1 - unit_roundoff) * a \<le> binary64 a" and hi: "binary64 a \<le> (1 + unit_roundoff) * a"
    by (simp_all add: abs_le_iff algebra_simps)
  have "(1 - unit_roundoff) ^ Suc k * b = (1 - unit_roundoff) * (?r * b)" by simp
  also have "\<dots> \<le> (1 - unit_roundoff) * a" using 1 rho_bounds(1) by (simp add: mult_left_mono)
  also have "\<dots> \<le> binary64 a" by (rule lo)
  finally have A: "(1 - unit_roundoff) ^ Suc k * b \<le> binary64 a" .
  have "(1 - unit_roundoff) * binary64 a \<le> (1 - unit_roundoff) * ((1 + unit_roundoff) * a)"
    using hi rho_bounds(1) by (simp add: mult_left_mono)
  also have "\<dots> = (1 - unit_roundoff * unit_roundoff) * a" by (simp add: algebra_simps)
  also have "\<dots> \<le> a" using a0 by (intro mult_le_one_left) simp_all
  finally have "(1 - unit_roundoff) * binary64 a \<le> a" .
  then have "?r * ((1 - unit_roundoff) * binary64 a) \<le> ?r * a"
    using rho_pow(1) [of k] by (simp add: mult_left_mono)
  with 2 have B: "(1 - unit_roundoff) ^ Suc k * binary64 a \<le> b" by (simp add: mult.left_commute mult.assoc)
  from A B show ?thesis by (simp add: approx_def)
qed

subsection \<open>Operations whose result is finite\<close>

text \<open>
  An operation whose exact result is 0, or lies between \<open>2^(-53)\<close> and \<open>2^1000\<close> up to the
  errors made so far, returns a finite double, with one more rounding error.
\<close>
lemma exponent_of_zero: "exponent_of 0 = - 2"
  by (simp add: exponent_of_def bitlen_pos bitlen_nonpos pow2_def)

lemma dround_finite:
  assumes "0 \<le> binary64 x" "binary64 x < pow2 1024"
  shows "dround x = Fin (binary64 x)"
proof (cases "binary64 x = 0")
  case True
  then show ?thesis by (simp add: dround_def exponent_of_zero)
next
  case False
  with assms(1) have pos: "0 < binary64 x" by simp
  from exponent_of_bounds [OF pos] have "pow2 (exponent_of (binary64 x)) \<le> binary64 x" ..
  with assms(2) have "pow2 (exponent_of (binary64 x)) < pow2 1024" by simp
  then have "exponent_of (binary64 x) < 1024" by (rule pow2_less_imp)
  then show ?thesis using pos by (simp add: dround_def Let_def abs_of_pos)
qed

lemma approx_dround:
  assumes ap: "approx k a b" and k: "k < 2 ^ 52" and b: "b = 0 \<or> 1 / 2 ^ 53 \<le> b"
      and ub: "b \<le> 2 ^ 1000"
  shows "dround a = Fin (binary64 a)" "approx (Suc k) (binary64 a) b"
proof -
  have k': "k \<le> 2 ^ 52" using k by simp
  show *: "approx (Suc k) (binary64 a) b" using ap k' b by (rule approx_round)
  have b0: "0 \<le> b" using b by (auto intro: order_trans [of 0 "1 / 2 ^ 53"])
  have r0: "0 \<le> binary64 a" using * b0 by (rule approx_nonneg)
  have "Suc k \<le> 2 ^ 52" using k by simp
  then have "1 / 2 \<le> (1 - unit_roundoff) ^ Suc k" by (rule rho_pow_half)
  then have "1 / 2 * binary64 a \<le> (1 - unit_roundoff) ^ Suc k * binary64 a"
    using r0 by (rule mult_right_mono)
  also have "\<dots> \<le> b" using * by (simp add: approx_def)
  finally have "binary64 a \<le> 2 * b" by simp
  also have "\<dots> \<le> 2 * 2 ^ 1000" using ub by simp
  also have "\<dots> < pow2 1024" by (simp add: pow2_def)
  finally have "binary64 a < pow2 1024" .
  with r0 show "dround a = Fin (binary64 a)" by (rule dround_finite)
qed

lemma nat_rat_cases: "w \<in> \<nat> \<Longrightarrow> w = 0 \<or> 1 \<le> w" for w :: rat
  by (auto elim!: Nats_cases)

lemma nat_rat_nonneg: "w \<in> \<nat> \<Longrightarrow> 0 \<le> w" for w :: rat
  by (auto elim!: Nats_cases)

lemma sum_list_nat_rat: "\<forall>w\<in>set ws. w \<in> \<nat> \<Longrightarrow> sum_list ws \<in> \<nat>" for ws :: "rat list"
  by (induction ws) (simp_all add: Nats_add)

lemma total_fold:
  assumes "\<forall>w\<in>set ws. w \<in> \<nat>" "approx k acc s" "s \<in> \<nat>" "k + length ws < 2 ^ 52"
      and "s + sum_list ws \<le> 2 ^ 53"
  shows "\<exists>r. foldl dadd (Fin acc) (map Fin ws) = Fin r
            \<and> approx (k + length ws) r (s + sum_list ws)"
  using assms
proof (induction ws arbitrary: acc k s)
  case Nil
  then show ?case by simp
next
  case (Cons w ws)
  have w: "w \<in> \<nat>" and rest: "\<forall>w\<in>set ws. w \<in> \<nat>" using Cons.prems(1) by simp_all
  have sw: "s + w \<in> \<nat>" using w Cons.prems(3) by (rule Nats_add [rotated])
  have r0: "0 \<le> sum_list ws" using sum_list_nat_rat [OF rest] by (rule nat_rat_nonneg)
  have e1: "approx k (acc + w) (s + w)"
    using Cons.prems(2) approx_refl [OF nat_rat_nonneg [OF w], of k] by (rule approx_add)
  have e2: "s + w = 0 \<or> 1 / 2 ^ 53 \<le> s + w"
    using nat_rat_cases [OF sw] by auto
  have e3: "k < 2 ^ 52" using Cons.prems(4) by simp
  have e4: "s + w \<le> 2 ^ 1000"
  proof -
    have "s + w \<le> 2 ^ 53" using Cons.prems(5) r0 by simp
    also have "\<dots> \<le> (2::rat) ^ 1000" by simp
    finally show ?thesis .
  qed
  note step = approx_dround [OF e1 e3 e2 e4]
  have "\<exists>r. foldl dadd (Fin (binary64 (acc + w))) (map Fin ws) = Fin r
            \<and> approx (Suc k + length ws) r (s + w + sum_list ws)"
    using rest step(2) sw Cons.prems(4,5) by (intro Cons.IH) (simp_all add: add.assoc)
  then show ?case by (simp add: step(1) add.assoc)
qed

subsection \<open>The sum of the weights and the sum of the terms\<close>
lemma get_property_finite_entries:
  "get_property (finite_entries cs) a =
     (case map_of cs a of
        Some c \<Rightarrow> Some (Fin c)
      | None \<Rightarrow> if a \<in> set Object_prototype_properties then Some NaN else None)"
  by (simp add: get_property_def finite_entries_def map_of_map split: option.splits)

lemma exact_terms_nonneg:
  fixes T :: rat
  assumes "\<forall>(a, w)\<in>set qs. w \<in> \<nat>" "\<forall>a c. map_of cs a = Some c \<longrightarrow> c \<in> \<nat>" "0 < T"
  shows "0 \<le> sum_list (map (\<lambda>(aspect, weight).
                               case map_of cs aspect of
                                 None \<Rightarrow> 0
                               | Some capability \<Rightarrow> weight / T * capability) qs)"
  using assms by (intro sum_list_nonneg) (auto split: option.splits simp: nat_rat_nonneg)

lemma terms_fold:
  fixes T T' :: rat
  assumes ws: "\<forall>(a, w)\<in>set qs. w \<in> \<nat> \<and> w \<le> 2 ^ 53
                 \<and> (a \<in> set Object_prototype_properties \<longrightarrow> map_of cs a \<noteq> None)"
      and cs: "\<forall>a c. map_of cs a = Some c \<longrightarrow> c \<in> \<nat>"
      and T: "approx n T' T" "1 \<le> T" "0 < T'" "T \<le> 2 ^ 53"
      and acc: "approx k acc s" "s = 0 \<or> 1 / 2 ^ 53 \<le> s"
      and k: "Suc (Suc n) \<le> k" "k + length qs < 2 ^ 52"
      and ub: "s + sum_list (map (\<lambda>(aspect, weight).
                                 case map_of cs aspect of
                                   None \<Rightarrow> 0
                                 | Some capability \<Rightarrow> weight / T * capability) qs) \<le> 2 ^ 1000"
  shows "\<exists>r. foldl (\<lambda>score (aspect, queryWeight).
                     case get_property (finite_entries cs) aspect of
                       None \<Rightarrow> score
                     | Some capability \<Rightarrow>
                         (let normalizedWeight = ddiv queryWeight (Fin T')
                          in dadd score (dmul normalizedWeight capability)))
                  (Fin acc) (finite_entries qs) = Fin r
            \<and> approx (k + length qs) r
                 (s + sum_list (map (\<lambda>(aspect, weight).
                                 case map_of cs aspect of
                                   None \<Rightarrow> 0
                                 | Some capability \<Rightarrow> weight / T * capability) qs))"
    (is "\<exists>r. foldl ?f (Fin acc) (finite_entries qs) = Fin r
            \<and> approx (k + length qs) r (s + sum_list (map ?g qs))")
  using ws acc k ub
proof (induction qs arbitrary: acc k s)
  case Nil
  then show ?case by (simp add: finite_entries_def)
next
  case (Cons p qs)
  obtain a w where p: "p = (a, w)" by (cases p)
  have w: "w \<in> \<nat>" and w53: "w \<le> 2 ^ 53"
    and inh: "a \<in> set Object_prototype_properties \<longrightarrow> map_of cs a \<noteq> None"
    using Cons.prems(1) p by simp_all
  have rest: "\<forall>(a, w)\<in>set qs. w \<in> \<nat> \<and> w \<le> 2 ^ 53
                 \<and> (a \<in> set Object_prototype_properties \<longrightarrow> map_of cs a \<noteq> None)"
    using Cons.prems(1) by simp
  have rest_nat: "\<forall>(a, w)\<in>set qs. w \<in> \<nat>" using rest by auto
  have Tpos: "0 < T" using T(2) by simp
  have g0: "0 \<le> sum_list (map ?g qs)"
    using rest_nat cs Tpos by (rule exact_terms_nonneg)
  have s0: "0 \<le> s" using Cons.prems(3) by (auto intro: order_trans [of 0 "1 / 2 ^ 53"])
  have unfold: "foldl ?f (Fin acc) (finite_entries (p # qs))
                  = foldl ?f (?f (Fin acc) (a, Fin w)) (finite_entries qs)"
    by (simp add: finite_entries_def p)
  show ?case
  proof (cases "map_of cs a")
    case None
    with inh have gp: "get_property (finite_entries cs) a = None"
      by (simp add: get_property_finite_entries)
    have ub': "s + sum_list (map ?g qs) \<le> 2 ^ 1000"
      using Cons.prems(6) by (simp add: p None)
    have k': "k + length qs < 2 ^ 52" using Cons.prems(5) by simp
    from Cons.IH [OF rest Cons.prems(2,3,4) k' ub']
    obtain r where r: "foldl ?f (Fin acc) (finite_entries qs) = Fin r"
      "approx (k + length qs) r (s + sum_list (map ?g qs))" by blast
    have "0 \<le> s + sum_list (map ?g qs)" using s0 g0 by simp
    with r(2) have "approx (k + Suc (length qs)) r (s + sum_list (map ?g qs))"
      by (rule approx_weaken) simp
    with r(1) show ?thesis unfolding unfold by (simp add: gp p None)
  next
    case (Some c)
    then have gp: "get_property (finite_entries cs) a = Some (Fin c)"
      by (simp add: get_property_finite_entries)
    have c: "c \<in> \<nat>" using cs Some by simp
    have c0: "0 \<le> c" using c by (rule nat_rat_nonneg)
    have w0: "0 \<le> w" using w by (rule nat_rat_nonneg)
    have kk: "k < 2 ^ 52" "n < 2 ^ 52" "Suc n < 2 ^ 52" using Cons.prems(4,5) by simp_all
    have ub': "s + w / T * c + sum_list (map ?g qs) \<le> 2 ^ 1000"
      using Cons.prems(6) by (simp add: p Some add.assoc)
    have wT: "w / T = 0 \<or> 1 / 2 ^ 53 \<le> w / T"
    proof (cases "w = 0")
      case True
      then show ?thesis by simp
    next
      case False
      with nat_rat_cases [OF w] have "1 \<le> w" by simp
      then have "1 / 2 ^ 53 \<le> w / T" using Tpos T(4) by (intro frac_le) simp_all
      then show ?thesis ..
    qed
    have wT1: "w / T \<le> 2 ^ 1000"
    proof -
      have "w / T \<le> w / 1" using w0 T(2) by (intro divide_left_mono) simp_all
      also have "\<dots> \<le> 2 ^ 53" using w53 by simp
      also have "\<dots> \<le> (2::rat) ^ 1000" by simp
      finally show ?thesis .
    qed
    have e1: "approx n (w / T') (w / T)"
      using T(1) Tpos T(3) w0 by (rule approx_divide)
    note d1 = approx_dround [OF e1 kk(2) wT wT1]
    have e3: "approx (Suc n) (binary64 (w / T') * c) (w / T * c)"
      using c0 d1(2) by (rule approx_scale)
    have t: "w / T * c = 0 \<or> 1 / 2 ^ 53 \<le> w / T * c"
    proof (cases "c = 0 \<or> w / T = 0")
      case True
      then show ?thesis by auto
    next
      case False
      with nat_rat_cases [OF c] wT have "1 \<le> c" "1 / 2 ^ 53 \<le> w / T" by simp_all
      moreover have "0 \<le> w / T" using w0 Tpos by simp
      ultimately have "1 / 2 ^ 53 * 1 \<le> w / T * c" by (intro mult_mono) simp_all
      then show ?thesis by simp
    qed
    have t0: "0 \<le> w / T * c" using t by (auto intro: order_trans [of 0 "1 / 2 ^ 53"])
    have t1: "w / T * c \<le> 2 ^ 1000" using ub' s0 g0 by linarith
    note d2 = approx_dround [OF e3 kk(3) t t1]
    have e5: "approx k (binary64 (binary64 (w / T') * c)) (w / T * c)"
      using d2(2) t0 Cons.prems(4) by (rule approx_weaken)
    have e6: "approx k (acc + binary64 (binary64 (w / T') * c)) (s + w / T * c)"
      using Cons.prems(2) e5 by (rule approx_add)
    have st: "s + w / T * c = 0 \<or> 1 / 2 ^ 53 \<le> s + w / T * c"
      using Cons.prems(3) t s0 t0 by auto
    have st1: "s + w / T * c \<le> 2 ^ 1000" using ub' g0 by linarith
    note d3 = approx_dround [OF e6 kk(1) st st1]
    have T0: "T' \<noteq> 0" using T(3) by simp
    have f: "?f (Fin acc) (a, Fin w) = Fin (binary64 (acc + binary64 (binary64 (w / T') * c)))"
      by (simp add: gp T0 d1(1) d2(1) d3(1))
    have k': "Suc (Suc n) \<le> Suc k" "Suc k + length qs < 2 ^ 52" using Cons.prems(4,5) by simp_all
    from Cons.IH [OF rest d3(2) st k' ub']
    show ?thesis unfolding unfold f by (simp add: p Some add.assoc)
  qed
qed

lemma approx_error:
  assumes "approx K a b" "0 \<le> b" "K \<le> 2 ^ 52"
  shows "\<bar>a - b\<bar> \<le> 2 * of_nat K * unit_roundoff * b"
proof -
  let ?r = "(1 - unit_roundoff) ^ K"
  let ?e = "of_nat K * unit_roundoff"
  have a0: "0 \<le> a" using assms(1,2) by (rule approx_nonneg)
  from assms(1) have 1: "?r * b \<le> a" and 2: "?r * a \<le> b" by (simp_all add: approx_def)
  have e0: "0 \<le> ?e" using rho_bounds(3) by simp
  have eb: "0 \<le> ?e * b" using e0 assms(2) by simp
  have "(1 - ?e) * b \<le> ?r * b" using bernoulli [of K] assms(2) by (rule mult_right_mono)
  with 1 have "b - a \<le> ?e * b" by (simp add: algebra_simps)
  with eb have lo: "b - a \<le> 2 * ?e * b" by simp
  have "(1 - ?e) * a \<le> ?r * a" using bernoulli [of K] a0 by (rule mult_right_mono)
  with 2 have 3: "a - b \<le> ?e * a" by (simp add: algebra_simps)
  have "1 / 2 * a \<le> ?r * a" using rho_pow_half [OF assms(3)] a0 by (rule mult_right_mono)
  with 2 have "a \<le> 2 * b" by simp
  then have "?e * a \<le> ?e * (2 * b)" using e0 by (rule mult_left_mono)
  with 3 have hi: "a - b \<le> 2 * ?e * b" by simp
  from lo hi show ?thesis by (simp add: abs_le_iff mult.assoc)
qed

lemma sum_list_bound:
  fixes B :: rat
  shows "\<forall>x\<in>set xs. f x \<le> B \<Longrightarrow> sum_list (map f xs) \<le> of_nat (length xs) * B"
  by (induction xs) (auto simp: algebra_simps add_mono)

lemma member_le_sum_list_rat:
  fixes ws :: "rat list"
  shows "\<forall>w\<in>set ws. 0 \<le> w \<Longrightarrow> x \<in> set ws \<Longrightarrow> x \<le> sum_list ws"
proof (induction ws)
  case Nil
  then show ?case by simp
next
  case (Cons w ws)
  have "0 \<le> sum_list ws" using Cons.prems(1) by (intro sum_list_nonneg) simp
  then show ?case using Cons by auto
qed

lemma normalized_dot_product_list:
  assumes "distinct (map fst q)"
  shows "normalized_dot_product q caps =
           sum_list (map (\<lambda>(aspect, weight).
                            case caps aspect of
                              None \<Rightarrow> 0
                            | Some capability \<Rightarrow>
                                weight / (if sum_list (map snd q) = 0 then 1 else sum_list (map snd q))
                                  * capability) q)"
proof -
  have dq: "distinct q" using assms by (simp add: distinct_map)
  have tot: "(\<Sum>(aspect, weight)\<in>set q. weight) = sum_list (map snd q)"
    using dq by (simp add: sum_list_distinct_conv_sum_set split_def)
  show ?thesis
    unfolding normalized_dot_product_def tot Let_def
    by (simp only: sum_list_distinct_conv_sum_set [OF dq])
qed

lemma calculateScore_bound:
  assumes d: "distinct (map fst q)"
    and ws: "\<forall>(a, w)\<in>set q. w \<in> \<nat>"
    and total: "sum_list (map snd q) < 2 ^ 53"
    and len: "length q < 2 ^ 50"
    and cs: "\<forall>(a, c)\<in>set cs. c \<in> \<nat> \<and> c \<le> 2 ^ 53"
    and inh: "\<forall>(a, w)\<in>set q. a \<in> set Object_prototype_properties \<longrightarrow> a \<in> fst ` set cs"
  shows "\<exists>s. calculateScore (finite_entries q) (finite_entries cs) = Fin s
           \<and> \<bar>s - normalized_dot_product q (map_of cs)\<bar>
               \<le> (4 * of_nat (length q) + 4) * unit_roundoff
                    * normalized_dot_product q (map_of cs)"
proof -
  let ?n = "length q"
  let ?T = "sum_list (map snd q)"
  have wnat: "\<forall>w\<in>set (map snd q). w \<in> \<nat>" using ws by auto
  have w0: "\<forall>w\<in>set (map snd q). 0 \<le> w" using wnat by (auto intro: nat_rat_nonneg)
  have Tnat: "?T \<in> \<nat>" using wnat by (rule sum_list_nat_rat)
  have "\<exists>r. foldl dadd (Fin 0) (map Fin (map snd q)) = Fin r
           \<and> approx (0 + length (map snd q)) r (0 + ?T)"
    using wnat approx_refl [of 0 0] _ _ _
  proof (rule total_fold)
    show "(0::rat) \<in> \<nat>" by simp
    show "0 + length (map snd q) < 2 ^ 52" using len by simp
    show "0 + ?T \<le> 2 ^ 53" using total by simp
  qed simp
  then obtain T' where T': "foldl dadd (Fin 0) (map Fin (map snd q)) = Fin T'"
    and apT: "approx ?n T' ?T" by auto
  have vals: "map snd (finite_entries q) = map Fin (map snd q)"
    by (simp add: finite_entries_def split_def)
  define Te where "Te = (if ?T = 0 then 1 else ?T)"
  define Te' where "Te' = (if T' = 0 then 1 else T')"
  have zero: "T' = 0 \<longleftrightarrow> ?T = 0"
  proof
    assume "T' = 0"
    with apT have "(1 - unit_roundoff) ^ ?n * ?T \<le> 0" by (simp add: approx_def)
    moreover have "0 \<le> ?T" using Tnat by (rule nat_rat_nonneg)
    ultimately show "?T = 0" using rho_pow(1) [of ?n] by (simp add: mult_le_0_iff)
  next
    assume "?T = 0"
    with apT show "T' = 0" using approx_zero by simp
  qed
  have Te1: "1 \<le> Te" using nat_rat_cases [OF Tnat] by (auto simp: Te_def)
  have Te53: "Te \<le> 2 ^ 53" using total by (simp add: Te_def)
  have apTe: "approx ?n Te' Te"
    using apT zero approx_refl [of 1 ?n] by (simp add: Te_def Te'_def)
  have Te'pos: "0 < Te'"
  proof -
    have "0 \<le> Te'" using apTe Te1 by (intro approx_nonneg [of ?n Te' Te]) simp_all
    moreover have "Te' \<noteq> 0" using zero by (simp add: Te'_def)
    ultimately show ?thesis by simp
  qed
  have tw: "(if Fin T' = Fin 0 \<or> Fin T' = NaN then Fin 1 else Fin T') = Fin Te'"
    by (simp add: Te'_def)
  let ?g = "\<lambda>(aspect, weight).
              case map_of cs aspect of
                None \<Rightarrow> 0
              | Some capability \<Rightarrow> weight / Te * capability"
  have csn: "\<forall>a c. map_of cs a = Some c \<longrightarrow> c \<in> \<nat>"
    using cs by (auto dest: map_of_SomeD)
  have cs53: "\<forall>a c. map_of cs a = Some c \<longrightarrow> c \<le> 2 ^ 53"
    using cs by (auto dest: map_of_SomeD)
  have wle: "w \<le> 2 ^ 53" if "(a, w) \<in> set q" for a w
  proof -
    have "w \<in> set (map snd q)" using that by force
    with w0 have "w \<le> ?T" by (rule member_le_sum_list_rat)
    with total show ?thesis by simp
  qed
  have ws': "\<forall>(a, w)\<in>set q. w \<in> \<nat> \<and> w \<le> 2 ^ 53
                 \<and> (a \<in> set Object_prototype_properties \<longrightarrow> map_of cs a \<noteq> None)"
    using ws inh wle by (auto simp: map_of_eq_None_iff)
  have gb: "\<forall>x\<in>set q. ?g x \<le> 2 ^ 106"
  proof
    fix x assume x: "x \<in> set q"
    obtain a w where xa: "x = (a, w)" by (cases x)
    have w: "0 \<le> w" "w \<le> 2 ^ 53" using x xa ws wle by (auto intro: nat_rat_nonneg)
    show "?g x \<le> 2 ^ 106"
    proof (cases "map_of cs a")
      case None
      then show ?thesis by (simp add: xa)
    next
      case (Some c)
      then have c: "0 \<le> c" "c \<le> 2 ^ 53" using csn cs53 by (auto intro: nat_rat_nonneg)
      have "w / Te \<le> w / 1" using w(1) Te1 by (intro divide_left_mono) simp_all
      with w(2) have "w / Te \<le> 2 ^ 53" by simp
      then have "w / Te * c \<le> 2 ^ 53 * 2 ^ 53" using c by (intro mult_mono) simp_all
      then show ?thesis by (simp add: xa Some)
    qed
  qed
  have "sum_list (map ?g q) \<le> of_nat ?n * 2 ^ 106" using gb by (rule sum_list_bound)
  also have "\<dots> \<le> 2 ^ 50 * 2 ^ 106"
  proof -
    have "(of_nat ?n :: rat) \<le> of_nat (2 ^ 50)" using len by (simp only: of_nat_le_iff)
    then show ?thesis by simp
  qed
  also have "\<dots> \<le> (2::rat) ^ 1000" by simp
  finally have ub: "0 + sum_list (map ?g q) \<le> 2 ^ 1000" by simp
  have "\<exists>r. foldl (\<lambda>score (aspect, queryWeight).
                     case get_property (finite_entries cs) aspect of
                       None \<Rightarrow> score
                     | Some capability \<Rightarrow>
                         (let normalizedWeight = ddiv queryWeight (Fin Te')
                          in dadd score (dmul normalizedWeight capability)))
                  (Fin 0) (finite_entries q) = Fin r
            \<and> approx (Suc (Suc ?n) + ?n) r (0 + sum_list (map ?g q))"
    using ws' csn apTe Te1 Te'pos Te53 approx_refl [of 0 "Suc (Suc ?n)"] _ _ _ ub
  proof (rule terms_fold)
    show "Suc (Suc ?n) + ?n < 2 ^ 52" using len by simp
  qed simp_all
  then obtain s where s: "foldl (\<lambda>score (aspect, queryWeight).
                     case get_property (finite_entries cs) aspect of
                       None \<Rightarrow> score
                     | Some capability \<Rightarrow>
                         (let normalizedWeight = ddiv queryWeight (Fin Te')
                          in dadd score (dmul normalizedWeight capability)))
                  (Fin 0) (finite_entries q) = Fin s"
    and aps': "approx (Suc (Suc ?n) + ?n) s (0 + sum_list (map ?g q))" by blast
  have "Suc (Suc ?n) + ?n = 2 * ?n + 2" by simp
  with aps' have aps: "approx (2 * ?n + 2) s (sum_list (map ?g q))" by (simp add: mult_2)
  have D: "normalized_dot_product q (map_of cs) = sum_list (map ?g q)"
    unfolding Te_def using d by (rule normalized_dot_product_list)
  have D0: "0 \<le> sum_list (map ?g q)"
    using ws csn by (intro exact_terms_nonneg) (use Te1 in auto)
  have "2 * ?n + 2 \<le> 2 ^ 52" using len by simp
  with aps D0 have "\<bar>s - sum_list (map ?g q)\<bar>
      \<le> 2 * of_nat (2 * ?n + 2) * unit_roundoff * sum_list (map ?g q)"
    by (rule approx_error)
  then have "\<bar>s - normalized_dot_product q (map_of cs)\<bar>
      \<le> (4 * of_nat ?n + 4) * unit_roundoff * normalized_dot_product q (map_of cs)"
    by (simp add: D algebra_simps)
  moreover have "calculateScore (finite_entries q) (finite_entries cs) = Fin s"
    using s unfolding calculateScore_def vals T' Let_def tw by this
  ultimately show ?thesis by blast
qed

subsection \<open>The score and the dot product\<close>
lemma dround_of_binary64:
  assumes "binary64 x = r" "0 \<le> r" "r < 2 ^ 1024"
  shows "dround x = Fin r"
proof -
  have "binary64 x < pow2 1024" using assms(1,3) by (simp add: pow2_def)
  with assms(1,2) show ?thesis using dround_finite [of x] by simp
qed

lemma gpt4_scores_eq:
  "gpt4_scores =
     [(''reasoning'', 8), (''coding'', 8), (''analysis'', 8), (''math'', 7), (''creative'', 8),
      (''speed'', 6), (''cost'', 4), (''multimodal'', 0)]"
  by (simp add: gpt4_scores_def buildCapabilityMatrix_def capability_row_def)

lemma gpt4_row:
  "get_property (finite_entries gpt4_scores) ''reasoning'' = Some (Fin 8)"
  "get_property (finite_entries gpt4_scores) ''coding'' = Some (Fin 8)"
  "get_property (finite_entries gpt4_scores) ''analysis'' = Some (Fin 8)"
  "get_property (finite_entries gpt4_scores) ''math'' = Some (Fin 7)"
  "get_property (finite_entries gpt4_scores) ''creative'' = Some (Fin 8)"
  "get_property (finite_entries gpt4_scores) ''speed'' = Some (Fin 6)"
  "get_property (finite_entries gpt4_scores) ''cost'' = Some (Fin 4)"
  "get_property (finite_entries gpt4_scores) ''multimodal'' = Some (Fin 0)"
  "get_property (finite_entries gpt4_scores) ''toString'' = Some NaN"
  "get_property (finite_entries gpt4_scores) ''unheard-of'' = None"
  by (simp_all add: get_property_finite_entries gpt4_scores_eq Object_prototype_properties_def)

text \<open>
  C6, amended. Let the query vector have distinct axes and natural numbers as weights, as
  \<open>analyzeQuery\<close> produces them, with a sum below \<open>2^53\<close> and fewer than \<open>2^50\<close> axes; let the
  capability scores of the model be natural numbers up to \<open>2^53\<close>; and let every axis of
  the query that is named like an inherited property of objects be an axis of the model's
  vector. Then \<open>calculateScore\<close> returns a finite number \<open>s\<close>, and \<open>s\<close> differs from the dot
  product \<open>D\<close> of the normalized weights with the capability scores (a sum of 0 counting as
  1, a missing axis contributing 0) by at most \<open>(4 n + 4) * 2^(-53) * D\<close>, \<open>n\<close> being the number
  of axes of the query. For a second query vector \<open>q'\<close> with the same axes and weights in
  another order the score is again finite and differs from \<open>s\<close> by at most twice that.
\<close>
theorem calculateScore_within_rounding_of_dot_product:
  assumes "distinct (map fst q)"
      and "\<forall>(aspect, weight)\<in>set q. weight \<in> \<nat>"
      and "sum_list (map snd q) < 2 ^ 53"
      and "length q < 2 ^ 50"
      and "\<forall>(aspect, capability)\<in>set capabilities. capability \<in> \<nat> \<and> capability \<le> 2 ^ 53"
      and "\<forall>(aspect, weight)\<in>set q.
             aspect \<in> set Object_prototype_properties \<longrightarrow> aspect \<in> fst ` set capabilities"
      and "distinct (map fst q')" and "set q' = set q"
  shows "\<exists>s s'. calculateScore (finite_entries q) (finite_entries capabilities) = Fin s
             \<and> calculateScore (finite_entries q') (finite_entries capabilities) = Fin s'
             \<and> \<bar>s - normalized_dot_product q (map_of capabilities)\<bar>
                 \<le> (4 * of_nat (length q) + 4) * unit_roundoff
                      * normalized_dot_product q (map_of capabilities)
             \<and> \<bar>s' - s\<bar>
                 \<le> (8 * of_nat (length q) + 8) * unit_roundoff
                      * normalized_dot_product q (map_of capabilities)"
proof -
  let ?D = "normalized_dot_product q (map_of capabilities)"
  let ?E = "(4 * of_nat (length q) + 4) * unit_roundoff * ?D"
  have dq: "distinct q" "distinct q'" using assms(1,7) by (simp_all add: distinct_map)
  have len: "length q' = length q"
    using dq assms(8) by (metis distinct_card)
  have tot: "sum_list (map snd q') = sum_list (map snd q)"
    using dq assms(8) by (simp add: sum_list_distinct_conv_sum_set)
  have D: "normalized_dot_product q' (map_of capabilities) = ?D"
    using assms(8) by (simp add: normalized_dot_product_def)
  from calculateScore_bound [OF assms(1-6)]
  obtain s where s: "calculateScore (finite_entries q) (finite_entries capabilities) = Fin s"
    "\<bar>s - ?D\<bar> \<le> ?E" by blast
  have "\<exists>s. calculateScore (finite_entries q') (finite_entries capabilities) = Fin s
           \<and> \<bar>s - normalized_dot_product q' (map_of capabilities)\<bar>
               \<le> (4 * of_nat (length q') + 4) * unit_roundoff
                    * normalized_dot_product q' (map_of capabilities)"
    using assms(7) _ _ _ assms(5)
  proof (rule calculateScore_bound)
    show "\<forall>(aspect, weight)\<in>set q'. weight \<in> \<nat>" using assms(2,8) by simp
    show "sum_list (map snd q') < 2 ^ 53" using assms(3) tot by simp
    show "length q' < 2 ^ 50" using assms(4) len by simp
    show "\<forall>(aspect, weight)\<in>set q'.
             aspect \<in> set Object_prototype_properties \<longrightarrow> aspect \<in> fst ` set capabilities"
      using assms(6,8) by simp
  qed
  then obtain s' where s': "calculateScore (finite_entries q') (finite_entries capabilities) = Fin s'"
    "\<bar>s' - ?D\<bar> \<le> ?E" unfolding D len by blast
  have "\<bar>s' - s\<bar> \<le> \<bar>s' - ?D\<bar> + \<bar>s - ?D\<bar>" by simp
  also have "\<dots> \<le> ?E + ?E" using s'(2) s(2) by (rule add_mono)
  also have "\<dots> = (8 * of_nat (length q) + 8) * unit_roundoff * ?D" by (simp add: algebra_simps)
  finally show ?thesis using s s'(1) by blast
qed

theorem calculateScore_within_rounding_of_dot_product_witness:
  "\<exists>s s'. calculateScore
             (finite_entries [(''creative'', 1), (''speed'', 1), (''cost'', 1), (''unheard-of'', 5)])
             (finite_entries gpt4_scores) = Fin s
        \<and> calculateScore
             (finite_entries [(''cost'', 1), (''unheard-of'', 5), (''creative'', 1), (''speed'', 1)])
             (finite_entries gpt4_scores) = Fin s'
        \<and> \<bar>s - 9 / 4\<bar> \<le> 45 / 2 ^ 53
        \<and> \<bar>s' - s\<bar> \<le> 90 / 2 ^ 53"
proof -
  let ?q = "[(''creative'', 1::rat), (''speed'', 1), (''cost'', 1), (''unheard-of'', 5)]"
  let ?q' = "[(''cost'', 1::rat), (''unheard-of'', 5), (''creative'', 1), (''speed'', 1)]"
  have D: "normalized_dot_product ?q (map_of gpt4_scores) = 9 / 4"
    by (simp add: normalized_dot_product_list gpt4_scores_eq)
  have h: "distinct (map fst ?q)"
    "\<forall>(aspect, weight)\<in>set ?q. weight \<in> \<nat>"
    "sum_list (map snd ?q) < 2 ^ 53"
    "length ?q < 2 ^ 50"
    "\<forall>(aspect, capability)\<in>set gpt4_scores. capability \<in> \<nat> \<and> capability \<le> 2 ^ 53"
    "\<forall>(aspect, weight)\<in>set ?q.
       aspect \<in> set Object_prototype_properties \<longrightarrow> aspect \<in> fst ` set gpt4_scores"
    "distinct (map fst ?q')"
    by (simp_all add: gpt4_scores_eq Object_prototype_properties_def)
  have s: "set ?q' = set ?q" by auto
  from calculateScore_within_rounding_of_dot_product [OF h s]
  show ?thesis by (simp add: D unit_roundoff_def)
qed

subsection \<open>The score is not the dot product, and depends on the order\<close>
lemma score_in_axis_order:
  assumes "dround 0 = Fin 0" "dround 1 = Fin 1" "dround 2 = Fin 2" "dround 3 = Fin 3"
      and "dround (1 / 3) = Fin d"
      and "dround (d * 8) = Fin t8" "dround (d * 6) = Fin t6" "dround (d * 4) = Fin t4"
      and "dround t8 = Fin s1" "dround (s1 + t6) = Fin s2" "dround (s2 + t4) = Fin s3"
          "dround s3 = Fin s4"
  shows "calculateScore
     (finite_entries
        [(''reasoning'', 0), (''coding'', 0), (''analysis'', 0), (''math'', 0), (''creative'', 1),
         (''speed'', 1), (''cost'', 1), (''multimodal'', 0)])
     (finite_entries gpt4_scores) = Fin s4"
  using assms
  by (simp add: calculateScore_def finite_entries_def [of "_ # _"] gpt4_row)

lemma score_cost_first:
  assumes "dround 0 = Fin 0" "dround 1 = Fin 1" "dround 2 = Fin 2" "dround 3 = Fin 3"
      and "dround (1 / 3) = Fin d"
      and "dround (d * 8) = Fin t8" "dround (d * 6) = Fin t6" "dround (d * 4) = Fin t4"
      and "dround t4 = Fin s1" "dround s1 = Fin s1" "dround (s1 + t8) = Fin s2"
          "dround (s2 + t6) = Fin s3" "dround s3 = Fin s3"
  shows "calculateScore
     (finite_entries
        [(''cost'', 1), (''coding'', 0), (''analysis'', 0), (''math'', 0), (''creative'', 1),
         (''speed'', 1), (''reasoning'', 0), (''multimodal'', 0)])
     (finite_entries gpt4_scores) = Fin s3"
  using assms
  by (simp add: calculateScore_def finite_entries_def [of "_ # _"] gpt4_row)

lemma binary64_facts:
  "binary64 1 = 1"
  "binary64 2 = 2"
  "binary64 3 = 3"
  "binary64 (1 / 3) = 6004799503160661 / 18014398509481984"
  "binary64 (6004799503160661 / 18014398509481984 * 8) = 6004799503160661 / 2251799813685248"
  "binary64 (6004799503160661 / 18014398509481984 * 6) = 2"
  "binary64 (6004799503160661 / 18014398509481984 * 4) = 6004799503160661 / 4503599627370496"
  by code_simp+

lemma binary64_sums_in_axis_order:
  "binary64 (6004799503160661 / 2251799813685248) = 6004799503160661 / 2251799813685248"
  "binary64 (6004799503160661 / 2251799813685248 + 2) = 2627099782632789 / 562949953421312"
  "binary64 (2627099782632789 / 562949953421312 + 6004799503160661 / 4503599627370496)
     = 6755399441055743 / 1125899906842624"
  "binary64 (6755399441055743 / 1125899906842624) = 6755399441055743 / 1125899906842624"
  by code_simp+

lemma binary64_sums_cost_first:
  "binary64 (6004799503160661 / 4503599627370496) = 6004799503160661 / 4503599627370496"
  "binary64 (6004799503160661 / 4503599627370496 + 6004799503160661 / 2251799813685248) = 4"
  "binary64 (4 + 2) = 6"
  "binary64 6 = 6"
  by code_simp+

lemma dround_zero: "dround 0 = Fin 0"
  by (simp add: dround_def binary64_zero exponent_of_zero)

lemma double_facts':
  "dround 1 = Fin 1"
  "dround 2 = Fin 2"
  "dround 3 = Fin 3"
  "dround (1 / 3) = Fin (6004799503160661 / 18014398509481984)"
  "dround (6004799503160661 / 18014398509481984 * 8) = Fin (6004799503160661 / 2251799813685248)"
  "dround (6004799503160661 / 18014398509481984 * 6) = Fin 2"
  "dround (6004799503160661 / 18014398509481984 * 4) = Fin (6004799503160661 / 4503599627370496)"
  by (rule dround_of_binary64, rule binary64_facts, simp, simp)+

lemma double_sums_in_axis_order:
  "dround (6004799503160661 / 2251799813685248) = Fin (6004799503160661 / 2251799813685248)"
  "dround (6004799503160661 / 2251799813685248 + 2) = Fin (2627099782632789 / 562949953421312)"
  "dround (2627099782632789 / 562949953421312 + 6004799503160661 / 4503599627370496)
     = Fin (6755399441055743 / 1125899906842624)"
  "dround (6755399441055743 / 1125899906842624) = Fin (6755399441055743 / 1125899906842624)"
  by (rule dround_of_binary64, rule binary64_sums_in_axis_order, simp, simp)+

lemma double_sums_cost_first:
  "dround (6004799503160661 / 4503599627370496) = Fin (6004799503160661 / 4503599627370496)"
  "dround (6004799503160661 / 4503599627370496 + 6004799503160661 / 2251799813685248) = Fin 4"
  "dround (4 + 2) = Fin 6"
  "dround 6 = Fin 6"
  by (rule dround_of_binary64, rule binary64_sums_cost_first, simp, simp)+

text \<open>
  C6, as stated, fails on doubles. A query with one keyword each for \<open>creative\<close>, \<open>speed\<close> and
  \<open>cost\<close> has the weights below, in the order \<open>analyzeQuery\<close> builds them. For the model \<open>gpt-4\<close>
  the dot product of the normalized weights with the scores is \<open>(8 + 6 + 4) / 3 = 6\<close>, but
  \<open>calculateScore\<close> returns 5.999999999999999, the double below 6; and with the same weights
  entered in another order, \<open>cost\<close> first, it returns 6.
\<close>
theorem calculateScore_rounding_counterexample:
  "calculateScore
     (finite_entries
        [(''reasoning'', 0), (''coding'', 0), (''analysis'', 0), (''math'', 0), (''creative'', 1),
         (''speed'', 1), (''cost'', 1), (''multimodal'', 0)])
     (finite_entries gpt4_scores) = Fin (6755399441055743 / 1125899906842624)
 \<and> calculateScore
     (finite_entries
        [(''cost'', 1), (''coding'', 0), (''analysis'', 0), (''math'', 0), (''creative'', 1),
         (''speed'', 1), (''reasoning'', 0), (''multimodal'', 0)])
     (finite_entries gpt4_scores) = Fin 6
 \<and> normalized_dot_product
     [(''reasoning'', 0), (''coding'', 0), (''analysis'', 0), (''math'', 0), (''creative'', 1),
      (''speed'', 1), (''cost'', 1), (''multimodal'', 0)]
     (map_of gpt4_scores) = 6"
proof -
  note a = score_in_axis_order [OF dround_zero double_facts' double_sums_in_axis_order]
  note b = score_cost_first [OF dround_zero double_facts' double_sums_cost_first(1)
      double_sums_cost_first]
  have "normalized_dot_product
     [(''reasoning'', 0), (''coding'', 0), (''analysis'', 0), (''math'', 0), (''creative'', 1),
      (''speed'', 1), (''cost'', 1), (''multimodal'', 0)]
     (map_of gpt4_scores) = 6"
    by (simp add: normalized_dot_product_list gpt4_scores_eq)
  with a b show ?thesis by simp
qed

subsection \<open>Inherited properties and overflow\<close>

text \<open>
  Outside the range of the theorem the score need not be near the dot product. An axis
  named \<open>toString\<close> is absent from the vector of \<open>gpt-4\<close>, yet \<open>capabilities[aspect]\<close> finds the
  inherited function and the score is \<open>NaN\<close>, even for a weight of 0. And when the sum of
  the weights overflows, every normalized weight is 0 and so is the score.
\<close>
lemma NaN_absorbing:
  "dadd x NaN = NaN" "dadd NaN x = NaN" "dmul x NaN = NaN" "dmul NaN x = NaN"
  by (cases x; simp)+

lemma calculateScore_inherited_axis:
  "calculateScore (finite_entries [(''speed'', 1), (''toString'', 0)]) (finite_entries gpt4_scores)
     = NaN
 \<and> normalized_dot_product [(''speed'', 1), (''toString'', 0)] (map_of gpt4_scores) = 6"
proof -
  have "calculateScore (finite_entries [(''speed'', 1), (''toString'', 0)])
          (finite_entries gpt4_scores) = NaN"
    using dround_zero double_facts'(1)
    by (simp add: calculateScore_def finite_entries_def [of "_ # _"] gpt4_row NaN_absorbing)
  moreover have "normalized_dot_product [(''speed'', 1), (''toString'', 0)] (map_of gpt4_scores) = 6"
    by (simp add: normalized_dot_product_list gpt4_scores_eq)
  ultimately show ?thesis by simp
qed

lemma exponent_of_unique:
  assumes "pow2 e \<le> a" "a < pow2 (e + 1)"
  shows "exponent_of a = e"
proof -
  have "0 < a" using assms(1) pow2_pos [of e] by linarith
  from exponent_of_bounds [OF this]
  have 1: "pow2 (exponent_of a) \<le> a" and 2: "a < pow2 (exponent_of a + 1)" by simp_all
  have "pow2 (exponent_of a) < pow2 (e + 1)" using 1 assms(2) by simp
  then have "exponent_of a < e + 1" by (rule pow2_less_imp)
  moreover have "pow2 e < pow2 (exponent_of a + 1)" using assms(1) 2 by simp
  then have "e < exponent_of a + 1" by (rule pow2_less_imp)
  ultimately show ?thesis by simp
qed

lemma exponent_of_pow2: "exponent_of (pow2 e) = e"
proof (rule exponent_of_unique)
  show "pow2 e \<le> pow2 e" by simp
  have "pow2 (e + 1) = pow2 e * pow2 1" by (rule pow2_add)
  moreover have "pow2 1 = 2" by (simp add: pow2_def)
  ultimately have "pow2 (e + 1) = pow2 e * 2" by simp
  then show "pow2 e < pow2 (e + 1)" using pow2_pos [of e] by simp
qed

lemma round_half_even_of_int: "round_half_even (of_int n) = n"
  by (simp add: round_half_even_def)

lemma binary64_pow2:
  assumes "- 1022 \<le> e"
  shows "binary64 (pow2 e) = pow2 e"
proof -
  have q: "max (e - 52) (- 1074) = e - 52" using assms by simp
  have "pow2 e / pow2 (e - 52) = pow2 (e - (e - 52))" by (simp only: pow2_diff)
  also have "\<dots> = of_int (2 ^ 52)" by (simp add: pow2_def)
  finally have m: "pow2 e / pow2 (e - 52) = of_int (2 ^ 52)" .
  have "pow2 e = pow2 (52 + (e - 52))" by simp
  also have "\<dots> = pow2 52 * pow2 (e - 52)" by (simp only: pow2_add)
  finally have p: "pow2 e = 2 ^ 52 * pow2 (e - 52)" by (simp add: pow2_def)
  have "binary64 (pow2 e) = of_int (round_half_even (pow2 e / pow2 (e - 52))) * pow2 (e - 52)"
    using pow2_pos [of e] by (simp add: binary64_def exponent_of_pow2 q Let_def abs_of_pos)
  also have "\<dots> = 2 ^ 52 * pow2 (e - 52)"
    unfolding m round_half_even_of_int by simp
  finally show ?thesis using p by simp
qed

lemma dround_overflow:
  "dround (2 ^ 1023) = Fin (2 ^ 1023)"
  "dround (2 ^ 1023 + 2 ^ 1023) = PosInf"
proof -
  have a: "(2::rat) ^ 1023 = pow2 1023" and b: "(2::rat) ^ 1023 + 2 ^ 1023 = pow2 1024"
    by (simp_all add: pow2_def)
  show "dround (2 ^ 1023) = Fin (2 ^ 1023)"
    unfolding a using pow2_pos [of 1023]
    by (simp add: dround_def binary64_pow2 exponent_of_pow2 abs_of_pos del: pow2_pos)
  show "dround (2 ^ 1023 + 2 ^ 1023) = PosInf"
    unfolding b using pow2_pos [of 1024]
    by (simp add: dround_def binary64_pow2 exponent_of_pow2 abs_of_pos del: pow2_pos)
qed

lemma score_overflow:
  assumes "dround 0 = Fin 0" "dround w = Fin w" "dround (w + w) = PosInf"
  shows "calculateScore (finite_entries [(''reasoning'', w), (''coding'', w)])
           (finite_entries gpt4_scores) = Fin 0"
  using assms
  by (simp add: calculateScore_def finite_entries_def [of "_ # _"] gpt4_row)

lemma calculateScore_overflow:
  "calculateScore (finite_entries [(''reasoning'', 2 ^ 1023), (''coding'', 2 ^ 1023)])
     (finite_entries gpt4_scores) = Fin 0
 \<and> normalized_dot_product [(''reasoning'', 2 ^ 1023), (''coding'', 2 ^ 1023)]
     (map_of gpt4_scores) = 8"
proof -
  have "normalized_dot_product [(''reasoning'', 2 ^ 1023), (''coding'', 2 ^ 1023)]
     (map_of gpt4_scores) = 8"
    by (simp add: normalized_dot_product_list gpt4_scores_eq)
  with score_overflow [OF dround_zero dround_overflow] show ?thesis by simp
qed

end
